theory Spec2Isabelle
  imports Complex_Main
begin

section \<open>The ZW format: parser (zwParser) and JSON serializer (jsonToZw)\<close>

text \<open>
  Shallow embedding of \<^verbatim>\<open>parseZW\<close> (src/zwtransformer/index.tsx, the zwParser part) and of
  \<^verbatim>\<open>convertJsonToZwString\<close> (src/README.md, the jsonToZw part).

  Conventions of the embedding.
  \<^item> A JavaScript string is a \<open>string\<close>. Isabelle characters are 8-bit, so the model covers
    the strings whose code units are below 256; on those the character classes of the
    source's regular expressions are written out below.
  \<^item> A JavaScript \<^verbatim>\<open>number\<close> that holds a depth is a \<open>rat\<close>: the only arithmetic on depths
    is \<^verbatim>\<open>currentIndent / 2\<close>, which is exact in IEEE-754 doubles, so the rational number is
    the value the program computes.
  \<^item> \<^verbatim>\<open>null\<close> as a result of \<^verbatim>\<open>parseZW\<close> is \<open>None\<close>.
\<close>

subsection \<open>String primitives of the host language\<close>

text \<open>\<^verbatim>\<open>\s\<close> and \<^verbatim>\<open>String.prototype.trim\<close>: white space and line terminators
  (TAB, LF, VT, FF, CR, SP, NBSP among the code units below 256).\<close>

definition isWhiteSpace :: "char \<Rightarrow> bool" where
  "isWhiteSpace c \<longleftrightarrow>
     c = CHR 0x09 \<or> c = CHR 0x0A \<or> c = CHR 0x0B \<or> c = CHR 0x0C \<or> c = CHR 0x0D \<or>
     c = CHR 0x20 \<or> c = CHR 0xA0"

text \<open>The characters that \<^verbatim>\<open>.\<close> does not match (LF and CR below 256).\<close>

definition isLineTerminator :: "char \<Rightarrow> bool" where
  "isLineTerminator c \<longleftrightarrow> c = CHR 0x0A \<or> c = CHR 0x0D"

definition isAsciiUpper :: "char \<Rightarrow> bool" where
  "isAsciiUpper c \<longleftrightarrow> (65::nat) \<le> of_char c \<and> (of_char c :: nat) \<le> 90"

definition isAsciiLower :: "char \<Rightarrow> bool" where
  "isAsciiLower c \<longleftrightarrow> (97::nat) \<le> of_char c \<and> (of_char c :: nat) \<le> 122"

definition isAsciiDigit :: "char \<Rightarrow> bool" where
  "isAsciiDigit c \<longleftrightarrow> (48::nat) \<le> of_char c \<and> (of_char c :: nat) \<le> 57"

text \<open>\<^verbatim>\<open>[A-Za-z0-9_]\<close>, the key characters of \<^verbatim>\<open>sectionRegex\<close>, \<^verbatim>\<open>keyValueRegex\<close>
  and \<^verbatim>\<open>listItemKvRegex\<close>.\<close>

definition isKeyChar :: "char \<Rightarrow> bool" where
  "isKeyChar c \<longleftrightarrow> isAsciiUpper c \<or> isAsciiLower c \<or> isAsciiDigit c \<or> c = CHR ''_''"

text \<open>\<^verbatim>\<open>[A-Z0-9_-]\<close> under the flag \<^verbatim>\<open>i\<close> (the root line), which is also the class
  \<^verbatim>\<open>[a-zA-Z0-9_-]\<close> of the language tag of a code fence.\<close>

definition isRootChar :: "char \<Rightarrow> bool" where
  "isRootChar c \<longleftrightarrow> isKeyChar c \<or> c = CHR ''-''"

definition trimStart :: "string \<Rightarrow> string" where
  "trimStart s = dropWhile isWhiteSpace s"

definition trimEnd :: "string \<Rightarrow> string" where
  "trimEnd s = rev (dropWhile isWhiteSpace (rev s))"

definition trim :: "string \<Rightarrow> string" where
  "trim s = trimEnd (trimStart s)"

definition startsWith :: "string \<Rightarrow> string \<Rightarrow> bool" where
  "startsWith p s \<longleftrightarrow> take (length p) s = p"

text \<open>\<^verbatim>\<open>s.split('\n')\<close>: never empty, one more piece than there are line feeds.\<close>

fun splitLines :: "string \<Rightarrow> string list" where
  "splitLines [] = [[]]"
| "splitLines (c # cs) =
     (if c = CHR 0x0A then [] # splitLines cs
      else (case splitLines cs of
              [] \<Rightarrow> [[c]]
            | l # ls \<Rightarrow> (c # l) # ls))"

subsection \<open>The data model: ZWNode and ZWListItem\<close>

text \<open>
  \<^verbatim>\<open>value?: string | ZWNode[] | ZWListItem[]\<close>. At run time the array of a parent holds
  nodes and list items mixed (the parser pushes both into the same array), so one type
  of objects has the two record shapes as constructors. The optional back-reference
  \<^verbatim>\<open>parent\<close> is never assigned by the parser and is left out.
\<close>

datatype zwobj =
    ZWNode (key: string) (nodeValue: zwvalue) (nodeDepth: rat) (nodeDelimiter: "string option")
  | ZWListItem (itemValue: zwvalue) (isKeyValue: "bool option") (itemKey: "string option")
      (itemDepth: rat) (itemDelimiter: "string option")
and zwvalue =
    VUndefined
  | VString string
  | VArray "zwobj list"

fun objValue :: "zwobj \<Rightarrow> zwvalue" where
  "objValue (ZWNode k v d dl) = v"
| "objValue (ZWListItem v kv ik d dl) = v"

fun objDepth :: "zwobj \<Rightarrow> rat" where
  "objDepth (ZWNode k v d dl) = d"
| "objDepth (ZWListItem v kv ik d dl) = d"

fun setValue :: "zwvalue \<Rightarrow> zwobj \<Rightarrow> zwobj" where
  "setValue v (ZWNode k v0 d dl) = ZWNode k v d dl"
| "setValue v (ZWListItem v0 kv ik d dl) = ZWListItem v kv ik d dl"

subsection \<open>Line classification\<close>

text \<open>\<^verbatim>\<open>getIndentation\<close>: the length of the match of \<^verbatim>\<open>/^(\s*)/\<close>.\<close>

definition getIndentation :: "string \<Rightarrow> nat" where
  "getIndentation line = length (takeWhile isWhiteSpace line)"

text \<open>
  \<^verbatim>\<open>codeFenceRegex = /^```(?:[a-zA-Z0-9_-]+)?\s*\n?([\s\S]*?)\s*\n?```$/\<close>. The result is the
  first capture group of the match, \<open>None\<close> when the string does not match. The string
  matches exactly when it begins and ends with three backticks that do not overlap.
  The greedy language tag takes the longest run of tag characters after the opening
  fence, the greedy \<^verbatim>\<open>\s*\<close> the longest run of white space after it (neither can run into
  the closing fence), and the lazy group ends at the first position from which only
  white space is left before the closing fence.
\<close>

definition fence :: string where
  "fence = [CHR 0x60, CHR 0x60, CHR 0x60]"

definition codeFenceMatch :: "string \<Rightarrow> string option" where
  "codeFenceMatch s =
     (if 6 \<le> length s \<and> take 3 s = fence \<and> drop (length s - 3) s = fence
      then let inner = take (length s - 6) (drop 3 s)
           in Some (trimEnd (dropWhile isWhiteSpace (dropWhile isRootChar inner)))
      else None)"

text \<open>
  \<^verbatim>\<open>rootLineRegex = /^([A-Z0-9_-]+(?:-[A-Z0-9_-]+)*):\s*$/i\<close>; the result is the first
  capture group. The class contains the hyphen, so the greedy \<^verbatim>\<open>+\<close> takes the whole run
  of class characters and the colon, which is not in the class, must follow it.
\<close>

definition rootLineMatch :: "string \<Rightarrow> string option" where
  "rootLineMatch line =
     (let ident = takeWhile isRootChar line; rest = dropWhile isRootChar line
      in if ident \<noteq> [] \<and> startsWith '':'' rest \<and> list_all isWhiteSpace (drop 1 rest)
         then Some ident else None)"

text \<open>
  The regular expressions built from the delimiter. \<^verbatim>\<open>escapeRegExp\<close> puts a backslash
  before every metacharacter, so the delimiter stands for itself in the pattern. The
  greedy key \<^verbatim>\<open>([A-Za-z0-9_]+)\<close> is tried from its longest length \<open>n\<close> downwards (the
  delimiter may itself consist of key characters); \<open>tailMatch\<close> is the rest of the
  pattern after the delimiter.
\<close>

fun keyDelimMatch :: "(string \<Rightarrow> 'a option) \<Rightarrow> string \<Rightarrow> string \<Rightarrow> nat \<Rightarrow> (string \<times> 'a) option" where
  "keyDelimMatch tailMatch delim s 0 = None"
| "keyDelimMatch tailMatch delim s (Suc n) =
     (if startsWith delim (drop (Suc n) s)
      then (case tailMatch (drop (Suc n + length delim) s) of
              Some r \<Rightarrow> Some (take (Suc n) s, r)
            | None \<Rightarrow> keyDelimMatch tailMatch delim s n)
      else keyDelimMatch tailMatch delim s n)"

text \<open>\<^verbatim>\<open>\s*$\<close>\<close>

definition sectionTail :: "string \<Rightarrow> unit option" where
  "sectionTail r = (if list_all isWhiteSpace r then Some () else None)"

text \<open>\<^verbatim>\<open>\s*(.*)$\<close>: the greedy \<^verbatim>\<open>\s*\<close> takes all leading white space; what is left is
  the second group, and must be free of line terminators for \<^verbatim>\<open>$\<close> to be reached. A
  shorter \<^verbatim>\<open>\s*\<close> leaves the same line terminator in front of \<^verbatim>\<open>$\<close>.\<close>

definition keyValueTail :: "string \<Rightarrow> string option" where
  "keyValueTail r =
     (let v = dropWhile isWhiteSpace r
      in if list_ex isLineTerminator v then None else Some v)"

text \<open>\<^verbatim>\<open>sectionRegex = new RegExp(`^([A-Za-z0-9_]+)${escapedDelimiter}\\s*$`)\<close>\<close>

definition sectionMatch :: "string \<Rightarrow> string \<Rightarrow> string option" where
  "sectionMatch delim s =
     map_option fst (keyDelimMatch sectionTail delim s (length (takeWhile isKeyChar s)))"

text \<open>\<^verbatim>\<open>keyValueRegex = new RegExp(`^([A-Za-z0-9_]+)${escapedDelimiter}\\s*(.*)$`)\<close>,
  which is also \<^verbatim>\<open>listItemKvRegex\<close>.\<close>

definition keyValueMatch :: "string \<Rightarrow> string \<Rightarrow> (string \<times> string) option" where
  "keyValueMatch delim s = keyDelimMatch keyValueTail delim s (length (takeWhile isKeyChar s))"

text \<open>The filter of \<^verbatim>\<open>semanticLines\<close>.\<close>

definition isSemantic :: "string \<Rightarrow> bool" where
  "isSemantic line \<longleftrightarrow> (let trimmed = trim line in trimmed \<noteq> [] \<and> \<not> startsWith ''#'' trimmed)"

text \<open>The text after trimming and fence stripping (\<^verbatim>\<open>processedZwString\<close>).\<close>

definition processedZwString :: "string \<Rightarrow> string" where
  "processedZwString zwString =
     (let t = trim zwString
      in case codeFenceMatch t of
           Some g \<Rightarrow> if g \<noteq> [] then trim g else t
         | None \<Rightarrow> t)"

definition semanticLines :: "string \<Rightarrow> string list" where
  "semanticLines zwString = filter isSemantic (splitLines (processedZwString zwString))"

text \<open>\<^verbatim>\<open>Math.max(1, currentIndent / 2)\<close>: the division is the division of numbers, not of
  integers.\<close>

definition lineDepth :: "string \<Rightarrow> rat" where
  "lineDepth line = max 1 (of_nat (getIndentation line) / 2)"

subsection \<open>The stack of open nodes\<close>

text \<open>
  \<^verbatim>\<open>stack\<close> holds references into the tree under construction: each entry above the root
  is the object that was pushed last into the array of the entry beneath it, and only
  the top entry (and the last element of its array) is ever written. The model keeps the
  stack as a list of node values with the top first. Every entry carries the current
  state of its node; the copy of an open node inside the array of its parent is brought up
  to date when the node is popped, and for all nodes still open when the root is returned
  (\<open>writeBack\<close>, \<open>closeStack\<close>).
\<close>

definition children :: "zwobj \<Rightarrow> zwobj list" where
  "children p = (case objValue p of VArray cs \<Rightarrow> cs | _ \<Rightarrow> [])"

text \<open>\<^verbatim>\<open>if (parentNode.value === undefined || typeof parentNode.value === 'string')
  parentNode.value = []\<close>, and the later guards \<^verbatim>\<open>if (!Array.isArray(parentNode.value))
  parentNode.value = []\<close>, which find an array already.\<close>

definition ensureArray :: "zwobj \<Rightarrow> zwobj" where
  "ensureArray p = (case objValue p of VArray cs \<Rightarrow> p | _ \<Rightarrow> setValue (VArray []) p)"

text \<open>\<^verbatim>\<open>parentNode.value.push(child)\<close>, where the value is an array.\<close>

definition pushChild :: "zwobj \<Rightarrow> zwobj \<Rightarrow> zwobj" where
  "pushChild child p = setValue (VArray (children p @ [child])) p"

text \<open>The open node \<open>child\<close> is the last element of the array of \<open>p\<close>.\<close>

definition writeBack :: "zwobj \<Rightarrow> zwobj \<Rightarrow> zwobj" where
  "writeBack child p = setValue (VArray (butlast (children p) @ [child])) p"

text \<open>
  \<^verbatim>\<open>while (stack.length > 1) { if (depth > stack[stack.length - 1].depth) break; stack.pop(); }\<close>
\<close>

fun popStack :: "rat \<Rightarrow> zwobj list \<Rightarrow> zwobj list" where
  "popStack depth (topNode # parent # rest) =
     (if depth > objDepth topNode then topNode # parent # rest
      else popStack depth (writeBack topNode parent # rest))"
| "popStack depth stack = stack"

text \<open>\<^verbatim>\<open>return rootNode\<close>: the bottom entry, with every open node written back. The stack
  is never empty (\<open>None\<close> stands for the empty stack, which is not reached).\<close>

fun closeStack :: "zwobj list \<Rightarrow> zwobj option" where
  "closeStack [] = None"
| "closeStack [rootNode] = Some rootNode"
| "closeStack (topNode # parent # rest) = closeStack (writeBack topNode parent # rest)"

text \<open>\<^verbatim>\<open>lastChild.value += `\n${line.substring(currentIndent)}`\<close> when the value of the last
  element of the array is a string; nothing otherwise.\<close>

definition appendToLastChild :: "string \<Rightarrow> zwobj \<Rightarrow> zwobj" where
  "appendToLastChild extra p =
     (let cs = children p; lastChild = last cs
      in case objValue lastChild of
           VString s \<Rightarrow> setValue (VArray (butlast cs @ [setValue (VString (s @ extra)) lastChild])) p
         | _ \<Rightarrow> p)"

subsection \<open>parseZW\<close>

text \<open>The body of the loop over \<^verbatim>\<open>semanticLines[1..]\<close>.\<close>

definition processLine :: "string \<Rightarrow> string \<Rightarrow> zwobj list \<Rightarrow> zwobj list" where
  "processLine effectiveDelimiter line stack =
     (let trimmedLine = trim line;
          currentIndent = getIndentation line;
          depth = lineDepth line
      in case popStack depth stack of
           [] \<Rightarrow> []
         | topNode # rest \<Rightarrow>
             (let parentNode = ensureArray topNode
              in if startsWith ''- '' trimmedLine then
                   (let itemContent = trim (drop 2 trimmedLine);
                        listItem =
                          (case keyValueMatch effectiveDelimiter itemContent of
                             Some (k, v) \<Rightarrow>
                               ZWListItem (VString v) (Some True) (Some k) depth (Some effectiveDelimiter)
                           | None \<Rightarrow>
                               ZWListItem (VString itemContent) None None depth (Some effectiveDelimiter))
                    in pushChild listItem parentNode # rest)
                 else
                   (case sectionMatch effectiveDelimiter trimmedLine of
                      Some k \<Rightarrow>
                        (let newNode = ZWNode k (VArray []) depth (Some effectiveDelimiter)
                         in newNode # pushChild newNode parentNode # rest)
                    | None \<Rightarrow>
                        (case keyValueMatch effectiveDelimiter trimmedLine of
                           Some (k, v) \<Rightarrow>
                             (let newNode = ZWNode k (VString v) depth (Some effectiveDelimiter)
                              in pushChild newNode parentNode # rest)
                         | None \<Rightarrow>
                             if trimmedLine \<noteq> [] \<and> children parentNode \<noteq> []
                             then appendToLastChild (CHR 0x0A # drop currentIndent line) parentNode # rest
                             else parentNode # rest))))"

text \<open>The value of the error node: the first significant line, cut at 70 characters.\<close>

definition invalidRootMessage :: "string \<Rightarrow> string" where
  "invalidRootMessage rootLineContent =
     ''Packet must start with a ZW Type declaration on its own line (e.g., ZW-REQUEST:). The first significant line found was: ''
     @ [CHR 0x22] @ take 70 rootLineContent @ (if length rootLineContent > 70 then ''...'' else [])
     @ [CHR 0x22] @ ''. It did not match the expected format. Common issues: text after the colon on the root line, or missing root type.''"

text \<open>\<^verbatim>\<open>options?.delimiter || ':'\<close>: a missing and an empty delimiter both give the colon.\<close>

definition effectiveDelimiterOf :: "string option \<Rightarrow> string" where
  "effectiveDelimiterOf delimiter =
     (case delimiter of None \<Rightarrow> '':'' | Some d \<Rightarrow> if d = [] then '':'' else d)"

definition parseZW :: "string \<Rightarrow> string option \<Rightarrow> zwobj option" where
  "parseZW zwString delimiter =
     (if processedZwString zwString = [] then None
      else case semanticLines zwString of
             [] \<Rightarrow> None
           | rootLineContent # lines \<Rightarrow>
               (case rootLineMatch rootLineContent of
                  None \<Rightarrow>
                    Some (ZWNode ''Error: Invalid Root''
                            (VString (invalidRootMessage rootLineContent)) 0 None)
                | Some rootKey \<Rightarrow>
                    (let effectiveDelimiter = effectiveDelimiterOf delimiter;
                         rootNode = ZWNode rootKey (VArray []) 0 (Some effectiveDelimiter)
                     in closeStack
                          (foldl (\<lambda>stack line. processLine effectiveDelimiter line stack)
                             [rootNode] lines))))"

subsection \<open>JSON values and the host functions of the serializer\<close>

text \<open>
  The value \<^verbatim>\<open>JSON.parse\<close> returns. The entries of an object are listed in the order in
  which \<^verbatim>\<open>for (const key in obj)\<close> visits them. A number is modelled where it is an
  integer of magnitude at most \<open>2 ^ 53\<close>, for which \<^verbatim>\<open>String(value)\<close> is the decimal
  numeral; other numbers are floating point and outside the model.
\<close>

datatype json =
    JNull
  | JBool bool
  | JNumber int
  | JString string
  | JArray "json list"
  | JObject "(string \<times> json) list"

definition digitChar :: "nat \<Rightarrow> char" where
  "digitChar d = char_of (48 + d)"

fun showNat :: "nat \<Rightarrow> string" where
  "showNat n = (if n < 10 then [digitChar n] else showNat (n div 10) @ [digitChar (n mod 10)])"

declare showNat.simps [simp del]

text \<open>\<^verbatim>\<open>String(value)\<close> for a number.\<close>

definition numberToString :: "int \<Rightarrow> string" where
  "numberToString i = (if i < 0 then CHR ''-'' # showNat (nat (- i)) else showNat (nat i))"

text \<open>\<^verbatim>\<open>String.prototype.toLowerCase\<close> on code units below 256: the ASCII capitals and the
  Latin-1 capitals other than the multiplication sign.\<close>

definition lowerChar :: "char \<Rightarrow> char" where
  "lowerChar c =
     (let n = (of_char c :: nat)
      in if (65 \<le> n \<and> n \<le> 90) \<or> (192 \<le> n \<and> n \<le> 222 \<and> n \<noteq> 215) then char_of (n + 32) else c)"

definition toLowerCase :: "string \<Rightarrow> string" where
  "toLowerCase s = map lowerChar s"

text \<open>
  \<^verbatim>\<open>!isNaN(Number(value)) && String(Number(value)) === value\<close>: the text is what
  \<^verbatim>\<open>String\<close> prints for the number it denotes. The infinities print as themselves.
  Every other numeral that \<^verbatim>\<open>String\<close> prints consists of digits, sign, point and
  exponent mark and has a digit, so a text with another character or without a digit
  fails the test. An optional minus sign followed by 1 to 15 digits denotes an integer
  that a double holds exactly and that prints in decimal, so the test holds exactly when
  the text has no leading zero and is not \<^verbatim>\<open>-0\<close>. On the remaining texts (fractions,
  exponents, long integers) the answer depends on floating-point rounding; it is the
  parameter \<open>fp\<close>.
\<close>

definition isNumeralChar :: "char \<Rightarrow> bool" where
  "isNumeralChar c \<longleftrightarrow>
     isAsciiDigit c \<or> c = CHR ''.'' \<or> c = CHR ''-'' \<or> c = CHR ''+'' \<or> c = CHR ''e''"

definition numberRoundTrips :: "(string \<Rightarrow> bool) \<Rightarrow> string \<Rightarrow> bool" where
  "numberRoundTrips fp v =
     (let digits = (if startsWith ''-'' v then drop 1 v else v)
      in if v = ''Infinity'' \<or> v = ''-Infinity'' then True
         else if \<not> list_all isNumeralChar v \<or> \<not> list_ex isAsciiDigit v then False
         else if list_all isAsciiDigit digits \<and> length digits \<le> 15
         then (if digits = ''0'' then v = ''0'' else \<not> startsWith ''0'' digits)
         else fp v)"

subsection \<open>convertValueToZw and convertObjectToZwItems\<close>

text \<open>\<^verbatim>\<open>pieces.join(sep)\<close>.\<close>

fun joinWith :: "string \<Rightarrow> string list \<Rightarrow> string" where
  "joinWith sep [] = []"
| "joinWith sep [l] = l"
| "joinWith sep (l # ls) = l @ sep @ joinWith sep ls"

text \<open>\<^verbatim>\<open>' '.repeat(level * JSON_TO_ZW_INDENT_SPACES)\<close>\<close>

definition JSON_TO_ZW_INDENT_SPACES :: nat where
  "JSON_TO_ZW_INDENT_SPACES = 2"

definition indentOf :: "nat \<Rightarrow> string" where
  "indentOf level = replicate (level * JSON_TO_ZW_INDENT_SPACES) CHR '' ''"

definition isPotentiallyAmbiguous :: "(string \<Rightarrow> bool) \<Rightarrow> string \<Rightarrow> bool" where
  "isPotentiallyAmbiguous fp v \<longleftrightarrow>
     (let lowerVal = toLowerCase v
      in lowerVal = ''true'' \<or> lowerVal = ''false'' \<or> lowerVal = ''null'' \<or>
         (v \<noteq> [] \<and> numberRoundTrips fp v))"

text \<open>\<^verbatim>\<open>`"${value.replace(/"/g, '\\"')}"`\<close>\<close>

definition escapeQuotes :: "string \<Rightarrow> string" where
  "escapeQuotes v = concat (map (\<lambda>c. if c = CHR 0x22 then [CHR 0x5C, CHR 0x22] else [c]) v)"

definition quoted :: "string \<Rightarrow> string" where
  "quoted v = [CHR 0x22] @ escapeQuotes v @ [CHR 0x22]"

text \<open>The multi-line branch: the first line as it is, every later line behind the indent.\<close>

definition indentContinuation :: "string \<Rightarrow> string list \<Rightarrow> string list" where
  "indentContinuation indent ls =
     (case ls of [] \<Rightarrow> [] | l # rest \<Rightarrow> l # map (\<lambda>line. indent @ line) rest)"

text \<open>\<^verbatim>\<open>typeof value === 'object' && value !== null && (Object.keys(value).length > 0 ||
  (Array.isArray(value) && value.length > 0))\<close>\<close>

fun isNonEmptyContainer :: "json \<Rightarrow> bool" where
  "isNonEmptyContainer (JArray items) = (items \<noteq> [])"
| "isNonEmptyContainer (JObject obj) = (obj \<noteq> [])"
| "isNonEmptyContainer v = False"

text \<open>
  \<open>convertArrayItems\<close> is the function mapped over a non-empty array, \<open>convertObjectLines\<close>
  the loop over the keys of an object with its flag \<^verbatim>\<open>firstKey\<close>; \<^verbatim>\<open>formatZwKey\<close> is the
  identity.
\<close>

fun convertValueToZw :: "(string \<Rightarrow> bool) \<Rightarrow> json \<Rightarrow> nat \<Rightarrow> string"
and convertArrayItems :: "(string \<Rightarrow> bool) \<Rightarrow> json list \<Rightarrow> nat \<Rightarrow> string list"
and convertObjectToZwItems :: "(string \<Rightarrow> bool) \<Rightarrow> (string \<times> json) list \<Rightarrow> nat \<Rightarrow> bool \<Rightarrow> string"
and convertObjectLines :: "(string \<Rightarrow> bool) \<Rightarrow> (string \<times> json) list \<Rightarrow> nat \<Rightarrow> bool \<Rightarrow> bool \<Rightarrow> string list"
where
  "convertValueToZw fp JNull level = ''null''"
| "convertValueToZw fp (JString v) level =
     (if v = [] then [CHR 0x22, CHR 0x22]
      else if isPotentiallyAmbiguous fp v then quoted v
      else if CHR 0x0A \<in> set v then joinWith [CHR 0x0A] (indentContinuation (indentOf level) (splitLines v))
      else v)"
| "convertValueToZw fp (JNumber n) level = numberToString n"
| "convertValueToZw fp (JBool b) level = (if b then ''true'' else ''false'')"
| "convertValueToZw fp (JArray items) level =
     (if items = [] then ''[] # Empty list''
      else joinWith [CHR 0x0A] (convertArrayItems fp items level))"
| "convertValueToZw fp (JObject obj) level = convertObjectToZwItems fp obj level False"
| "convertArrayItems fp [] level = []"
| "convertArrayItems fp (JObject obj # items) level =
     (indentOf level @ ''- '' @
        joinWith (CHR 0x0A # indentOf (level + 1))
          (splitLines (convertObjectToZwItems fp obj (level + 1) True)))
     # convertArrayItems fp items level"
| "convertArrayItems fp (item # items) level =
     (indentOf level @ ''- '' @ convertValueToZw fp item (level + 1))
     # convertArrayItems fp items level"
| "convertObjectToZwItems fp obj level isChildOfListItem =
     joinWith [CHR 0x0A] (convertObjectLines fp obj level isChildOfListItem True)"
| "convertObjectLines fp [] level isChildOfListItem firstKey = []"
| "convertObjectLines fp ((k, v) # rest) level isChildOfListItem firstKey =
     (let lineStartIndent = (if isChildOfListItem \<and> firstKey then [] else indentOf level)
      in (if isNonEmptyContainer v
          then [lineStartIndent @ k @ '':'', convertValueToZw fp v (level + 1)]
          else [lineStartIndent @ k @ '': '' @ convertValueToZw fp v level])
         @ convertObjectLines fp rest level isChildOfListItem False)"

subsection \<open>convertJsonToZwString\<close>

text \<open>
  \<^verbatim>\<open>JSON.parse\<close> belongs to the host; it is the parameter \<open>jsonParse\<close>, which returns the
  parsed value or, where \<^verbatim>\<open>JSON.parse\<close> throws, the \<^verbatim>\<open>message\<close> of the error. The
  optional argument \<^verbatim>\<open>rootZwType\<close> is a \<open>string option\<close>; \<open>hasRootType\<close> is the test
  \<^verbatim>\<open>rootZwType && rootZwType.trim()\<close> and \<open>rootTypeMissing\<close> the test \<^verbatim>\<open>!rootZwType\<close>.
\<close>

definition hasRootType :: "string option \<Rightarrow> bool" where
  "hasRootType rootZwType = (case rootZwType of None \<Rightarrow> False | Some r \<Rightarrow> r \<noteq> [] \<and> trim r \<noteq> [])"

definition rootTypeMissing :: "string option \<Rightarrow> bool" where
  "rootTypeMissing rootZwType = (case rootZwType of None \<Rightarrow> True | Some r \<Rightarrow> r = [])"

definition rootTypeText :: "string option \<Rightarrow> string" where
  "rootTypeText rootZwType = (case rootZwType of None \<Rightarrow> [] | Some r \<Rightarrow> trim r)"

definition convertJsonToZwString ::
  "(string \<Rightarrow> string + json) \<Rightarrow> (string \<Rightarrow> bool) \<Rightarrow> string \<Rightarrow> string option \<Rightarrow> string" where
  "convertJsonToZwString jsonParse fp jsonString rootZwType =
     (case jsonParse jsonString of
        Inl message \<Rightarrow> ''# Error: Invalid JSON input.'' @ [CHR 0x0A] @ ''# '' @ message
      | Inr parsedJson \<Rightarrow>
          (let baseIndentLevel = (if hasRootType rootZwType then 1 else 0);
               header = (if hasRootType rootZwType then rootTypeText rootZwType @ '':'' @ [CHR 0x0A] else []);
               zwOutput =
                 (case parsedJson of
                    JObject obj \<Rightarrow> header @ convertObjectToZwItems fp obj baseIndentLevel False
                  | JArray items \<Rightarrow>
                      (let effectiveRootKey = (if hasRootType rootZwType then [] else ''JSON_ARRAY_ROOT:'')
                       in header
                          @ (if rootTypeMissing rootZwType then effectiveRootKey @ [CHR 0x0A] else [])
                          @ convertValueToZw fp parsedJson baseIndentLevel)
                  | _ \<Rightarrow>
                      (let effectiveRootKey = (if hasRootType rootZwType then [] else ''JSON_PRIMITIVE_ROOT:'')
                       in header
                          @ (if rootTypeMissing rootZwType then effectiveRootKey @ [CHR 0x0A] else [])
                          @ indentOf baseIndentLevel @ ''ROOT_VALUE: '' @ convertValueToZw fp parsedJson 0))
           in if trim zwOutput = [] \<and> hasRootType rootZwType
              then rootTypeText rootZwType @ '':'' else zwOutput))"

subsection \<open>Notions used to state the properties\<close>

text \<open>A node without its value: what identifies an entry of the stack while its array
  grows.\<close>

definition nodeHeader :: "zwobj \<Rightarrow> zwobj" where
  "nodeHeader n = setValue VUndefined n"

definition isArrayValue :: "zwvalue \<Rightarrow> bool" where
  "isArrayValue v = (case v of VArray cs \<Rightarrow> True | _ \<Rightarrow> False)"

text \<open>
  The shape of the stack that the write-back relies on: the last element of the array of
  every entry is (a copy of) the entry above it.
\<close>

fun linked :: "zwobj list \<Rightarrow> bool" where
  "linked (topNode # parent # rest) \<longleftrightarrow>
     children parent \<noteq> [] \<and> nodeHeader (last (children parent)) = nodeHeader topNode \<and>
     linked (parent # rest)"
| "linked stack \<longleftrightarrow> True"


text \<open>
  The root declaration in the words of the specification: an identifier (letters,
  digits, underscore, hyphen) followed by the delimiter and nothing else but white space.
  The delimiter of the root line is the colon whatever \<^verbatim>\<open>options.delimiter\<close> is:
  \<^verbatim>\<open>rootLineRegex\<close> is a literal, only the patterns of the children are built from the
  effective delimiter.
\<close>

definition spec_rootDeclaration :: "string \<Rightarrow> bool" where
  "spec_rootDeclaration line \<longleftrightarrow>
     (\<exists>ident ws. line = ident @ '':'' @ ws \<and> ident \<noteq> [] \<and>
        list_all isRootChar ident \<and> list_all isWhiteSpace ws)"

section \<open>Properties of the parser\<close>

subsection \<open>Nodes and their headers\<close>

lemma objDepth_setValue [simp]: "objDepth (setValue v n) = objDepth n"
  by (cases n) simp_all

lemma objValue_setValue [simp]: "objValue (setValue v n) = v"
  by (cases n) simp_all

lemma setValue_setValue [simp]: "setValue v (setValue w n) = setValue v n"
  by (cases n) simp_all

lemma nodeHeader_setValue [simp]: "nodeHeader (setValue v n) = nodeHeader n"
  by (simp add: nodeHeader_def)

lemma nodeHeader_depth: "nodeHeader a = nodeHeader b \<Longrightarrow> objDepth a = objDepth b"
  by (cases a; cases b) (simp_all add: nodeHeader_def)

lemma nodeHeader_pushChild [simp]: "nodeHeader (pushChild c p) = nodeHeader p"
  by (simp add: pushChild_def)

lemma nodeHeader_writeBack [simp]: "nodeHeader (writeBack c p) = nodeHeader p"
  by (simp add: writeBack_def)

lemma nodeHeader_ensureArray [simp]: "nodeHeader (ensureArray p) = nodeHeader p"
  by (simp add: ensureArray_def split: zwvalue.splits)

lemma nodeHeader_appendToLastChild [simp]: "nodeHeader (appendToLastChild e p) = nodeHeader p"
  by (simp add: appendToLastChild_def Let_def split: zwvalue.splits)

lemma objDepth_writeBack [simp]: "objDepth (writeBack c p) = objDepth p"
  by (simp add: writeBack_def)

lemma nodeHeader_root:
  "nodeHeader r = nodeHeader (ZWNode k v d dl) \<Longrightarrow> r = ZWNode k (objValue r) d dl"
  by (cases r) (simp_all add: nodeHeader_def)

subsection \<open>popStack\<close>

lemma popStack_nonempty: "stack \<noteq> [] \<Longrightarrow> popStack depth stack \<noteq> []"
  by (induction depth stack rule: popStack.induct) simp_all

lemma popStack_length: "length (popStack depth stack) \<le> length stack"
  by (induction depth stack rule: popStack.induct) (auto simp: le_Suc_eq)

lemma popStack_last:
  "stack \<noteq> [] \<Longrightarrow> nodeHeader (last (popStack depth stack)) = nodeHeader (last stack)"
  by (induction depth stack rule: popStack.induct) simp_all

lemma popStack_top_shallower:
  "stack \<noteq> [] \<Longrightarrow> objDepth (last stack) < depth \<Longrightarrow> objDepth (hd (popStack depth stack)) < depth"
  by (induction depth stack rule: popStack.induct) (auto split: if_splits)

lemma popStack_suffix:
  "map nodeHeader (popStack depth stack)
     = drop (length stack - length (popStack depth stack)) (map nodeHeader stack) \<and>
   (\<forall>d \<in> set (take (length stack - length (popStack depth stack)) (map objDepth stack)). depth \<le> d)"
proof (induction depth stack rule: popStack.induct)
  case (1 depth topNode parent rest)
  show ?case
  proof (cases "depth > objDepth topNode")
    case True
    then show ?thesis by simp
  next
    case False
    let ?r = "popStack depth (writeBack topNode parent # rest)"
    have len: "length ?r \<le> Suc (length rest)"
      using popStack_length [of depth "writeBack topNode parent # rest"] by simp
    then have n: "length (topNode # parent # rest) - length ?r
        = Suc (length (writeBack topNode parent # rest) - length ?r)"
      by simp
    from 1 False have ih:
      "map nodeHeader ?r = drop (length (writeBack topNode parent # rest) - length ?r)
          (map nodeHeader (writeBack topNode parent # rest))"
      "\<forall>d \<in> set (take (length (writeBack topNode parent # rest) - length ?r)
          (map objDepth (writeBack topNode parent # rest))). depth \<le> d"
      by simp_all
    from False have pop: "popStack depth (topNode # parent # rest) = ?r" by simp
    show ?thesis
      unfolding pop n using ih False by (simp del: popStack.simps)
  qed
qed simp_all

subsection \<open>processLine and the loop\<close>

lemma processLine_invariant:
  assumes "stack \<noteq> []"
  shows "processLine delim line stack \<noteq> [] \<and>
         nodeHeader (last (processLine delim line stack)) = nodeHeader (last stack)"
proof -
  obtain p rest where pr: "popStack (lineDepth line) stack = p # rest"
    using popStack_nonempty [OF assms, of "lineDepth line"] by (cases "popStack (lineDepth line) stack") auto
  have "nodeHeader (last (p # rest)) = nodeHeader (last stack)"
    using popStack_last [OF assms, of "lineDepth line"] pr by simp
  then show ?thesis
    unfolding processLine_def Let_def pr
    by (auto split: option.splits prod.splits)
qed

lemma foldl_processLine_invariant:
  "stack \<noteq> [] \<Longrightarrow>
   foldl (\<lambda>st l. processLine delim l st) stack ls \<noteq> [] \<and>
   nodeHeader (last (foldl (\<lambda>st l. processLine delim l st) stack ls)) = nodeHeader (last stack)"
proof (induction ls arbitrary: stack)
  case Nil
  then show ?case by simp
next
  case (Cons l ls)
  from processLine_invariant [OF Cons.prems, of delim l]
  have step: "processLine delim l stack \<noteq> []"
    "nodeHeader (last (processLine delim l stack)) = nodeHeader (last stack)" by simp_all
  from Cons.IH [OF step(1)] step(2) show ?case by simp
qed

lemma closeStack_root:
  "stack \<noteq> [] \<Longrightarrow> \<exists>r. closeStack stack = Some r \<and> nodeHeader r = nodeHeader (last stack)"
  by (induction stack rule: closeStack.induct) auto

lemma lineDepth_ge_1: "1 \<le> lineDepth line"
  by (simp add: lineDepth_def)

subsection \<open>The stack mirrors the references of the source\<close>

text \<open>
  Every stack that the loop reaches is linked, so \<open>writeBack\<close> replaces the copy of the
  very node that is popped.
\<close>

lemma linked_same_header:
  "linked (p # rest) \<Longrightarrow> nodeHeader p' = nodeHeader p \<Longrightarrow> linked (p' # rest)"
  by (cases rest) simp_all

lemma linked_tail: "linked (p # rest) \<Longrightarrow> linked rest"
  by (cases rest) simp_all

lemma popStack_linked: "linked stack \<Longrightarrow> linked (popStack depth stack)"
proof (induction depth stack rule: popStack.induct)
  case (1 depth topNode parent rest)
  then have "linked (writeBack topNode parent # rest)"
    using linked_same_header [of parent rest "writeBack topNode parent"] by simp
  with 1 show ?case by simp
qed simp_all

lemma children_pushChild [simp]: "children (pushChild c p) = children p @ [c]"
  by (simp add: pushChild_def children_def)

lemma processLine_linked:
  assumes "linked stack"
  shows "linked (processLine delim line stack)"
proof (cases "popStack (lineDepth line) stack")
  case Nil
  then show ?thesis by (simp add: processLine_def Let_def)
next
  case (Cons p rest)
  with popStack_linked [OF assms, of "lineDepth line"] have l: "linked (p # rest)" by simp
  have same: "linked (x # rest)" if "nodeHeader x = nodeHeader p" for x
    using l that by (rule linked_same_header)
  have new: "linked (n # pushChild n (ensureArray p) # rest)" for n
    using same [of "pushChild n (ensureArray p)"] by simp
  show ?thesis
    unfolding processLine_def Let_def Cons
    by (auto split: option.splits prod.splits intro: same new)
qed

lemma foldl_processLine_linked:
  "linked stack \<Longrightarrow> linked (foldl (\<lambda>st l. processLine delim l st) stack ls)"
  by (induction ls arbitrary: stack) (simp_all add: processLine_linked)

lemma parseZW_stack_linked:
  "linked (foldl (\<lambda>st l. processLine delim l st) [ZWNode rootKey (VArray []) 0 dl] ls)"
  by (rule foldl_processLine_linked) simp

subsection \<open>The root line\<close>

lemma not_isRootChar_colon: "\<not> isRootChar CHR '':''"
  by (simp add: isRootChar_def isKeyChar_def isAsciiUpper_def isAsciiLower_def isAsciiDigit_def)

lemma rootLineMatch_iff:
  "rootLineMatch line = Some ident \<longleftrightarrow>
     ident \<noteq> [] \<and> list_all isRootChar ident \<and>
     (\<exists>ws. line = ident @ '':'' @ ws \<and> list_all isWhiteSpace ws)"
proof
  assume m: "rootLineMatch line = Some ident"
  let ?rest = "dropWhile isRootChar line"
  from m have id: "ident = takeWhile isRootChar line" and ne: "ident \<noteq> []"
    and colon: "startsWith '':'' ?rest" and ws: "list_all isWhiteSpace (drop 1 ?rest)"
    by (auto simp: rootLineMatch_def Let_def split: if_splits)
  from colon have "?rest = '':'' @ drop 1 ?rest"
    by (cases ?rest) (auto simp: startsWith_def)
  then have "line = ident @ '':'' @ drop 1 ?rest"
    using id takeWhile_dropWhile_id [of isRootChar line] by metis
  moreover have "list_all isRootChar ident"
    unfolding id by (simp add: list_all_iff) (meson set_takeWhileD)
  ultimately show "ident \<noteq> [] \<and> list_all isRootChar ident \<and>
     (\<exists>ws. line = ident @ '':'' @ ws \<and> list_all isWhiteSpace ws)"
    using ne ws by blast
next
  assume r: "ident \<noteq> [] \<and> list_all isRootChar ident \<and>
     (\<exists>ws. line = ident @ '':'' @ ws \<and> list_all isWhiteSpace ws)"
  then obtain ws where l: "line = ident @ CHR '':'' # ws" and ws: "list_all isWhiteSpace ws"
    by auto
  from r have all: "\<forall>c \<in> set ident. isRootChar c" by (simp add: list_all_iff)
  have t: "takeWhile isRootChar line = ident"
    unfolding l using all not_isRootChar_colon by (simp add: takeWhile_append2)
  have d: "dropWhile isRootChar line = CHR '':'' # ws"
    unfolding l using all not_isRootChar_colon by (simp add: dropWhile_append2)
  show "rootLineMatch line = Some ident"
    using r ws by (simp add: rootLineMatch_def Let_def t d startsWith_def)
qed

lemma spec_rootDeclaration_iff:
  "spec_rootDeclaration line \<longleftrightarrow> (\<exists>ident. rootLineMatch line = Some ident)"
  unfolding rootLineMatch_iff spec_rootDeclaration_def by blast

lemma rootKey_not_error:
  assumes "list_all isRootChar ident"
  shows "\<not> startsWith ''Error:'' ident"
proof
  assume "startsWith ''Error:'' ident"
  then have "take (length ''Error:'') ident = ''Error:''"
    by (simp add: startsWith_def)
  then have "CHR '':'' \<in> set (take (length ''Error:'') ident)"
    by simp
  then have "CHR '':'' \<in> set ident"
    by (rule in_set_takeD)
  with assms not_isRootChar_colon show False by (auto simp: list_all_iff)
qed

lemma semanticLines_processed:
  "semanticLines zwString = l # ls \<Longrightarrow> processedZwString zwString \<noteq> []"
  by (auto simp: semanticLines_def isSemantic_def trim_def trimEnd_def trimStart_def)

subsection \<open>The value of the root\<close>

lemma isArray_pushChild [simp]: "isArrayValue (objValue (pushChild c p))"
  by (simp add: pushChild_def isArrayValue_def)

lemma isArray_writeBack [simp]: "isArrayValue (objValue (writeBack c p))"
  by (simp add: writeBack_def isArrayValue_def)

lemma isArray_ensureArray [simp]: "isArrayValue (objValue (ensureArray p))"
  by (simp add: ensureArray_def isArrayValue_def split: zwvalue.splits)

lemma isArray_appendToLastChild [simp]:
  "isArrayValue (objValue p) \<Longrightarrow> isArrayValue (objValue (appendToLastChild e p))"
  by (simp add: appendToLastChild_def Let_def isArrayValue_def split: zwvalue.splits)

lemma popStack_last_array:
  "stack \<noteq> [] \<Longrightarrow> isArrayValue (objValue (last stack)) \<Longrightarrow>
   isArrayValue (objValue (last (popStack depth stack)))"
  by (induction depth stack rule: popStack.induct) (auto split: if_splits)

lemma processLine_last_array:
  assumes "stack \<noteq> []" and "isArrayValue (objValue (last stack))"
  shows "isArrayValue (objValue (last (processLine delim line stack)))"
proof -
  obtain p rest where pr: "popStack (lineDepth line) stack = p # rest"
    using popStack_nonempty [OF assms(1), of "lineDepth line"]
    by (cases "popStack (lineDepth line) stack") auto
  have "isArrayValue (objValue (last (p # rest)))"
    using popStack_last_array [OF assms, of "lineDepth line"] pr by simp
  then show ?thesis
    unfolding processLine_def Let_def pr
    by (auto split: option.splits prod.splits)
qed

lemma foldl_processLine_last_array:
  "stack \<noteq> [] \<Longrightarrow> isArrayValue (objValue (last stack)) \<Longrightarrow>
   isArrayValue (objValue (last (foldl (\<lambda>st l. processLine delim l st) stack ls)))"
proof (induction ls arbitrary: stack)
  case Nil
  then show ?case by simp
next
  case (Cons l ls)
  have "processLine delim l stack \<noteq> []"
    using processLine_invariant [OF Cons.prems(1)] by simp
  moreover have "isArrayValue (objValue (last (processLine delim l stack)))"
    using processLine_last_array [OF Cons.prems] .
  ultimately show ?case using Cons.IH by simp
qed

lemma closeStack_array:
  "stack \<noteq> [] \<Longrightarrow> isArrayValue (objValue (last stack)) \<Longrightarrow>
   \<exists>r. closeStack stack = Some r \<and> isArrayValue (objValue r)"
  by (induction stack rule: closeStack.induct) (auto split: if_splits)

subsection \<open>The two results of the root test\<close>

text \<open>
  Claim C1. Whenever the first semantic line of the input is not a root declaration (an
  identifier followed by the colon and nothing else), as in the document \<^verbatim>\<open>FOO: bar\<close>,
  \<^verbatim>\<open>parseZW\<close> returns the error node: its key is \<^verbatim>\<open>Error: Invalid Root\<close>, its value the
  message about the offending line, its depth 0. The result is a value (the function has
  no exception path), it is not \<^verbatim>\<open>null\<close> and it is not a node named after the line.
\<close>

theorem parseZW_invalid_root_is_error:
  assumes "semanticLines zwString = line # rest"
    and "\<not> spec_rootDeclaration line"
  shows "parseZW zwString delimiter =
           Some (ZWNode ''Error: Invalid Root'' (VString (invalidRootMessage line)) 0 None)"
proof -
  from assms(2) have "rootLineMatch line = None"
    by (simp add: spec_rootDeclaration_iff)
  with assms(1) semanticLines_processed [OF assms(1)] show ?thesis
    by (simp add: parseZW_def)
qed

text \<open>
  The document \<^verbatim>\<open>FOO: bar\<close> satisfies the hypotheses of C1.
\<close>

theorem parseZW_invalid_root_is_error_witness:
  "semanticLines ''FOO: bar'' = [''FOO: bar''] \<and>
   \<not> spec_rootDeclaration ''FOO: bar'' \<and>
   parseZW ''FOO: bar'' None =
     Some (ZWNode ''Error: Invalid Root'' (VString (invalidRootMessage ''FOO: bar'')) 0 None)"
proof -
  have s: "semanticLines ''FOO: bar'' = [''FOO: bar'']"
    by code_simp
  have "rootLineMatch ''FOO: bar'' = None"
    by code_simp
  then have n: "\<not> spec_rootDeclaration ''FOO: bar''"
    by (simp add: spec_rootDeclaration_iff)
  from parseZW_invalid_root_is_error [OF s n, of None] s n show ?thesis
    by simp
qed

text \<open>
  Claim C10. Whenever the first semantic line of the input is a root declaration,
  \<^verbatim>\<open>parseZW\<close> returns a success node whatever the later lines are: the node has the
  identifier of the root line as its key (which never begins with \<^verbatim>\<open>Error:\<close>), depth 0,
  the effective delimiter and an array as its value. The invalid-root test is the only
  error path.
\<close>

theorem parseZW_valid_root_is_success:
  assumes "semanticLines zwString = line # rest"
    and "spec_rootDeclaration line"
  shows "\<exists>rootKey cs.
           parseZW zwString delimiter =
             Some (ZWNode rootKey (VArray cs) 0 (Some (effectiveDelimiterOf delimiter))) \<and>
           rootLineMatch line = Some rootKey \<and>
           \<not> startsWith ''Error:'' rootKey"
proof -
  from assms(2) obtain rootKey where m: "rootLineMatch line = Some rootKey"
    by (auto simp: spec_rootDeclaration_iff)
  let ?d = "effectiveDelimiterOf delimiter"
  let ?root = "ZWNode rootKey (VArray []) 0 (Some ?d)"
  let ?st = "foldl (\<lambda>stack line. processLine ?d line stack) [?root] rest"
  have ne: "?st \<noteq> []" and hd: "nodeHeader (last ?st) = nodeHeader ?root"
    using foldl_processLine_invariant [of "[?root]" ?d rest] by simp_all
  have arr: "isArrayValue (objValue (last ?st))"
    using foldl_processLine_last_array [of "[?root]" ?d rest] by (simp add: isArrayValue_def)
  from closeStack_root [OF ne] obtain r where r: "closeStack ?st = Some r"
    and rh: "nodeHeader r = nodeHeader (last ?st)" by blast
  from closeStack_array [OF ne arr] r have "isArrayValue (objValue r)" by simp
  then obtain cs where cs: "objValue r = VArray cs"
    by (cases "objValue r") (simp_all add: isArrayValue_def)
  from rh hd have "r = ZWNode rootKey (objValue r) 0 (Some ?d)"
    using nodeHeader_root by simp
  with cs have "r = ZWNode rootKey (VArray cs) 0 (Some ?d)" by simp
  with r have p: "parseZW zwString delimiter = Some (ZWNode rootKey (VArray cs) 0 (Some ?d))"
    using assms(1) semanticLines_processed [OF assms(1)] m
    by (simp add: parseZW_def Let_def)
  from m have "list_all isRootChar rootKey" by (simp add: rootLineMatch_iff)
  then have "\<not> startsWith ''Error:'' rootKey" by (rule rootKey_not_error)
  with p m show ?thesis by blast
qed

text \<open>
  A document with a valid root line followed by a leaf, a stray line and a line that
  begins with the delimiter: the later lines are absorbed, the result is a success node.
\<close>

theorem parseZW_valid_root_is_success_witness:
  "semanticLines ''R:\<newline>  a: 1\<newline> stray text\<newline>: ?'' = [''R:'', ''  a: 1'', '' stray text'', '': ?''] \<and>
   spec_rootDeclaration ''R:'' \<and>
   parseZW ''R:\<newline>  a: 1\<newline> stray text\<newline>: ?'' None =
     Some (ZWNode ''R'' (VArray [ZWNode ''a'' (VString ''1\<newline>stray text\<newline>: ?'') 1 (Some '':'')]) 0 (Some '':''))"
proof -
  have s: "semanticLines ''R:\<newline>  a: 1\<newline> stray text\<newline>: ?'' = [''R:'', ''  a: 1'', '' stray text'', '': ?'']"
    by code_simp
  have "rootLineMatch ''R:'' = Some ''R''"
    by code_simp
  then have r: "spec_rootDeclaration ''R:''"
    by (simp add: spec_rootDeclaration_iff)
  have p: "parseZW ''R:\<newline>  a: 1\<newline> stray text\<newline>: ?'' None =
     Some (ZWNode ''R'' (VArray [ZWNode ''a'' (VString ''1\<newline>stray text\<newline>: ?'') 1 (Some '':'')]) 0 (Some '':''))"
    by code_simp
  from parseZW_valid_root_is_success [OF s r, of None] s r p show ?thesis
    by simp
qed

subsection \<open>Depth resolution\<close>

text \<open>
  Claim C4. At every line of the loop of \<^verbatim>\<open>parseZW\<close> (after any lines \<open>ls\<close> already
  processed under any root), depth resolution leaves a non-empty stack whose bottom entry
  is still the root node; the entries popped are exactly the top \<open>n\<close> entries, each of
  depth greater than or equal to the depth of the line, and the entry left on top, under
  which the line is attached, has a depth strictly less than the depth of the line.
\<close>

theorem popStack_finds_strictly_shallower_parent:
  "let rootNode = ZWNode rootKey (VArray []) 0 (Some delim);
       stack = foldl (\<lambda>st l. processLine delim l st) [rootNode] ls;
       depth = lineDepth line;
       stack' = popStack depth stack;
       n = length stack - length stack'
   in stack' \<noteq> [] \<and>
      nodeHeader (last stack') = nodeHeader rootNode \<and>
      objDepth (hd stack') < depth \<and>
      map nodeHeader stack' = drop n (map nodeHeader stack) \<and>
      (\<forall>d \<in> set (take n (map objDepth stack)). depth \<le> d)"
proof -
  let ?root = "ZWNode rootKey (VArray []) 0 (Some delim)"
  let ?st = "foldl (\<lambda>st l. processLine delim l st) [?root] ls"
  have ne: "?st \<noteq> []" and hd: "nodeHeader (last ?st) = nodeHeader ?root"
    using foldl_processLine_invariant [of "[?root]" delim ls] by simp_all
  from hd have "objDepth (last ?st) = 0"
    using nodeHeader_depth [of "last ?st" ?root] by simp
  with lineDepth_ge_1 [of line] have lt: "objDepth (last ?st) < lineDepth line"
    by simp
  have 1: "popStack (lineDepth line) ?st \<noteq> []"
    using popStack_nonempty [OF ne] .
  have 2: "nodeHeader (last (popStack (lineDepth line) ?st)) = nodeHeader ?root"
    using popStack_last [OF ne] hd by simp
  have 3: "objDepth (hd (popStack (lineDepth line) ?st)) < lineDepth line"
    using popStack_top_shallower [OF ne lt] .
  from 1 2 3 popStack_suffix [of "lineDepth line" ?st] show ?thesis
    by (simp add: Let_def)
qed

text \<open>
  With the sections \<^verbatim>\<open>B\<close> (depth 1) and \<^verbatim>\<open>C\<close> (depth 2) open, a line of depth 1 pops both
  and is attached under the root.
\<close>

theorem popStack_finds_strictly_shallower_parent_witness:
  "foldl (\<lambda>st l. processLine '':'' l st) [ZWNode ''R'' (VArray []) 0 (Some '':'')] [''  B:'', ''    C:'']
     = [ZWNode ''C'' (VArray []) 2 (Some '':''),
        ZWNode ''B'' (VArray [ZWNode ''C'' (VArray []) 2 (Some '':'')]) 1 (Some '':''),
        ZWNode ''R'' (VArray [ZWNode ''B'' (VArray []) 1 (Some '':'')]) 0 (Some '':'')] \<and>
   lineDepth ''  D: 1'' = 1 \<and>
   popStack (lineDepth ''  D: 1'')
     (foldl (\<lambda>st l. processLine '':'' l st) [ZWNode ''R'' (VArray []) 0 (Some '':'')] [''  B:'', ''    C:''])
     = [ZWNode ''R'' (VArray [ZWNode ''B'' (VArray [ZWNode ''C'' (VArray []) 2 (Some '':'')]) 1 (Some '':'')]) 0 (Some '':'')] \<and>
   objDepth (hd (popStack (lineDepth ''  D: 1'')
     (foldl (\<lambda>st l. processLine '':'' l st) [ZWNode ''R'' (VArray []) 0 (Some '':'')] [''  B:'', ''    C:'']))) < lineDepth ''  D: 1''"
proof -
  have a: "foldl (\<lambda>st l. processLine '':'' l st) [ZWNode ''R'' (VArray []) 0 (Some '':'')] [''  B:'', ''    C:'']
     = [ZWNode ''C'' (VArray []) 2 (Some '':''),
        ZWNode ''B'' (VArray [ZWNode ''C'' (VArray []) 2 (Some '':'')]) 1 (Some '':''),
        ZWNode ''R'' (VArray [ZWNode ''B'' (VArray []) 1 (Some '':'')]) 0 (Some '':'')]"
    by code_simp
  have b: "lineDepth ''  D: 1'' = 1"
    by code_simp
  have c: "popStack (lineDepth ''  D: 1'')
     (foldl (\<lambda>st l. processLine '':'' l st) [ZWNode ''R'' (VArray []) 0 (Some '':'')] [''  B:'', ''    C:''])
     = [ZWNode ''R'' (VArray [ZWNode ''B'' (VArray [ZWNode ''C'' (VArray []) 2 (Some '':'')]) 1 (Some '':'')]) 0 (Some '':'')]"
    by code_simp
  from popStack_finds_strictly_shallower_parent [of "''R''" "'':''" "[''  B:'', ''    C:'']" "''  D: 1''"]
  have d: "objDepth (hd (popStack (lineDepth ''  D: 1'')
     (foldl (\<lambda>st l. processLine '':'' l st) [ZWNode ''R'' (VArray []) 0 (Some '':'')] [''  B:'', ''    C:'']))) < lineDepth ''  D: 1''"
    by (simp only: Let_def)
  from a b c d show ?thesis by (simp only: simp_thms)
qed

subsection \<open>Sections and leaves\<close>

lemma not_isKeyChar_dash: "\<not> isKeyChar CHR ''-''"
  by (simp add: isKeyChar_def isAsciiUpper_def isAsciiLower_def isAsciiDigit_def)

lemma keyValueTail_empty_sectionTail:
  "keyValueTail r = Some [] \<Longrightarrow> sectionTail r = Some ()"
  by (auto simp: keyValueTail_def sectionTail_def Let_def list_all_iff dropWhile_eq_Nil_conv split: if_splits)

lemma keyDelimMatch_empty_value_is_section:
  "keyDelimMatch keyValueTail delim s n = Some (k, []) \<Longrightarrow>
   keyDelimMatch sectionTail delim s n \<noteq> None"
proof (induction n)
  case 0
  then show ?case by simp
next
  case (Suc n)
  show ?case
  proof (cases "startsWith delim (drop (Suc n) s)")
    case False
    with Suc show ?thesis by simp
  next
    case True
    show ?thesis
    proof (cases "sectionTail (drop (Suc n + length delim) s)")
      case (Some u)
      with True show ?thesis by simp
    next
      case None
      then have "keyValueTail (drop (Suc n + length delim) s) \<noteq> Some []"
        using keyValueTail_empty_sectionTail by fastforce
      with Suc.prems True have "keyDelimMatch keyValueTail delim s n = Some (k, [])"
        by (auto split: option.splits)
      with Suc.IH None True show ?thesis by simp
    qed
  qed
qed

lemma keyValueMatch_leaf_nonempty:
  "sectionMatch delim t = None \<Longrightarrow> keyValueMatch delim t = Some (k, v) \<Longrightarrow> v \<noteq> []"
  using keyDelimMatch_empty_value_is_section [of delim t "length (takeWhile isKeyChar t)" k]
  by (auto simp: sectionMatch_def keyValueMatch_def)

lemma takeWhile_key_delim:
  assumes "list_all isKeyChar k" and "delim \<noteq> []" and "\<not> isKeyChar (hd delim)"
  shows "takeWhile isKeyChar (k @ delim @ r) = k"
proof -
  from assms(2) obtain c cs where d: "delim = c # cs" by (cases delim) auto
  with assms(3) have "\<not> isKeyChar c" by simp
  with assms(1) d show ?thesis
    by (simp add: list_all_iff takeWhile_append2)
qed

lemma sectionMatch_key_delim:
  assumes "k \<noteq> []" and "list_all isKeyChar k" and "delim \<noteq> []" and "\<not> isKeyChar (hd delim)"
  shows "sectionMatch delim (k @ delim) = Some k"
proof -
  have t: "takeWhile isKeyChar (k @ delim) = k"
    using takeWhile_key_delim [OF assms(2,3,4), of "[]"] by simp
  from assms(1) obtain m where m: "length k = Suc m" by (cases k) auto
  have "keyDelimMatch sectionTail delim (k @ delim) (Suc m) = Some (k, ())"
    using m by (simp add: startsWith_def sectionTail_def del: keyDelimMatch.simps add: keyDelimMatch.simps(2) [of sectionTail delim "k @ delim" m])
  then show ?thesis
    by (simp add: sectionMatch_def t m del: keyDelimMatch.simps)
qed

text \<open>
  Claim C9 says that a non-list line made of a key, the delimiter and an empty trailing
  value gives a leaf holding the empty string. It does not: \<^verbatim>\<open>sectionRegex\<close> is tried
  first and matches every such line, so the child is a section. In the document below the
  line \<^verbatim>\<open>a:\<close> followed by a space yields the node \<^verbatim>\<open>a\<close> with an empty array, not with
  the empty string.
\<close>

theorem parseZW_empty_value_counterexample:
  "parseZW ''R:\<newline>  a: \<newline>  b: 1'' None =
     Some (ZWNode ''R''
             (VArray [ZWNode ''a'' (VArray []) 1 (Some '':''),
                      ZWNode ''b'' (VString ''1'') 1 (Some '':'')])
             0 (Some '':''))"
  by code_simp

text \<open>
  Claim C9 as amended. A non-list line that consists, once trimmed, of a key and the
  delimiter (a delimiter that does not begin with a key character, as the colon) opens a
  section: the new child node holds an empty array (not \<^verbatim>\<open>undefined\<close>, not a string) and is
  pushed on the stack. The key-value branch, reached only when \<^verbatim>\<open>sectionRegex\<close> fails,
  never produces a leaf holding the empty string.
\<close>

theorem empty_value_line_opens_section:
  assumes "popStack (lineDepth line) stack = p # rest"
    and "trim line = k @ delim"
    and "k \<noteq> []" and "list_all isKeyChar k"
    and "delim \<noteq> []" and "\<not> isKeyChar (hd delim)"
  shows "processLine delim line stack =
           ZWNode k (VArray []) (lineDepth line) (Some delim)
           # pushChild (ZWNode k (VArray []) (lineDepth line) (Some delim)) (ensureArray p)
           # rest \<and>
         (\<forall>t k' v. sectionMatch delim t = None \<longrightarrow> keyValueMatch delim t = Some (k', v) \<longrightarrow> v \<noteq> [])"
proof -
  from assms(3) obtain c cs where k: "k = c # cs" by (cases k) auto
  with assms(4) have "isKeyChar c" by simp
  with not_isKeyChar_dash have "c \<noteq> CHR ''-''" by auto
  with k have nolist: "\<not> startsWith ''- '' (k @ delim)"
    by (simp add: startsWith_def)
  have sec: "sectionMatch delim (k @ delim) = Some k"
    using sectionMatch_key_delim [OF assms(3,4,5,6)] .
  have "processLine delim line stack =
           ZWNode k (VArray []) (lineDepth line) (Some delim)
           # pushChild (ZWNode k (VArray []) (lineDepth line) (Some delim)) (ensureArray p)
           # rest"
    unfolding processLine_def Let_def assms(1) assms(2)
    using nolist sec by simp
  then show ?thesis
    using keyValueMatch_leaf_nonempty by blast
qed

text \<open>
  The line \<^verbatim>\<open>a:\<close> with surrounding white space, under a fresh root.
\<close>

theorem empty_value_line_opens_section_witness:
  "popStack (lineDepth ''  a: '') [ZWNode ''R'' (VArray []) 0 (Some '':'')] = [ZWNode ''R'' (VArray []) 0 (Some '':'')] \<and>
   trim ''  a: '' = ''a'' @ '':'' \<and> ''a'' \<noteq> [] \<and> list_all isKeyChar ''a'' \<and> '':'' \<noteq> [] \<and> \<not> isKeyChar (hd '':'') \<and>
   processLine '':'' ''  a: '' [ZWNode ''R'' (VArray []) 0 (Some '':'')] =
     [ZWNode ''a'' (VArray []) 1 (Some '':''),
      ZWNode ''R'' (VArray [ZWNode ''a'' (VArray []) 1 (Some '':'')]) 0 (Some '':'')]"
proof -
  have a: "popStack (lineDepth ''  a: '') [ZWNode ''R'' (VArray []) 0 (Some '':'')] = [ZWNode ''R'' (VArray []) 0 (Some '':'')]"
    by simp
  have b: "trim ''  a: '' = ''a'' @ '':''"
    by code_simp
  have c: "''a'' \<noteq> []" by simp
  have d: "list_all isKeyChar ''a''" by code_simp
  have e: "'':'' \<noteq> []" by simp
  have f: "\<not> isKeyChar (hd '':'')" by code_simp
  have g: "lineDepth ''  a: '' = 1" by code_simp
  have h: "pushChild (ZWNode ''a'' (VArray []) 1 (Some '':'')) (ensureArray (ZWNode ''R'' (VArray []) 0 (Some '':'')))
            = ZWNode ''R'' (VArray [ZWNode ''a'' (VArray []) 1 (Some '':'')]) 0 (Some '':'')"
    by code_simp
  from empty_value_line_opens_section [OF a b c d e f]
  have "processLine '':'' ''  a: '' [ZWNode ''R'' (VArray []) 0 (Some '':'')] =
     [ZWNode ''a'' (VArray []) 1 (Some '':''),
      ZWNode ''R'' (VArray [ZWNode ''a'' (VArray []) 1 (Some '':'')]) 0 (Some '':'')]"
    unfolding g h by blast
  with a b c d e f show ?thesis by blast
qed


subsection \<open>The depth of a line\<close>

text \<open>
  Claim C2 says that the depth is \<open>max(1, indentation / 2)\<close> with integer division, so
  that an indentation of 3 gives depth 1. The division is the division of numbers: a line
  indented by 3 has depth \<open>3 / 2\<close>, which is greater than the depth 1 of a section
  indented by 2, and the line becomes a child of that section instead of its sibling.
\<close>

theorem parseZW_fractional_depth_counterexample:
  "getIndentation ''   C: 1'' = 3 \<and> lineDepth ''   C: 1'' = 3 / 2 \<and>
   parseZW ''R:\<newline>  B:\<newline>   C: 1'' None =
     Some (ZWNode ''R''
             (VArray [ZWNode ''B'' (VArray [ZWNode ''C'' (VString ''1'') (3 / 2) (Some '':'')]) 1 (Some '':'')])
             0 (Some '':''))"
  by code_simp

lemma max_half_eq_1: "(max 1 (of_nat n / 2) = (1::rat)) \<longleftrightarrow> n \<le> 2"
proof -
  have "(of_nat n / 2 \<le> (1::rat)) \<longleftrightarrow> (of_nat n :: rat) \<le> 2" by simp
  also have "\<dots> \<longleftrightarrow> n \<le> 2" by (metis of_nat_le_iff of_nat_numeral)
  finally show ?thesis by (auto simp: max_def)
qed

text \<open>
  Claim C2 as amended. Every object that the loop creates for a line (a list item, a
  section node or a leaf node) has the depth \<open>max(1, indentation / 2)\<close> where the
  division is exact: the depth is 1 exactly when the indentation is at most 2, and an
  indentation of 3 gives \<open>3 / 2\<close>.
\<close>

theorem processLine_object_depth:
  assumes "popStack (lineDepth line) stack = p # rest"
    and "startsWith ''- '' (trim line) \<or> sectionMatch delim (trim line) \<noteq> None \<or>
         keyValueMatch delim (trim line) \<noteq> None"
  shows "\<exists>obj. objDepth obj = max 1 (of_nat (getIndentation line) / 2) \<and>
           (objDepth obj = 1 \<longleftrightarrow> getIndentation line \<le> 2) \<and>
           (processLine delim line stack = pushChild obj (ensureArray p) # rest \<or>
            processLine delim line stack = obj # pushChild obj (ensureArray p) # rest)"
proof -
  have main: "\<exists>obj. objDepth obj = lineDepth line \<and>
           (processLine delim line stack = pushChild obj (ensureArray p) # rest \<or>
            processLine delim line stack = obj # pushChild obj (ensureArray p) # rest)"
  proof (cases "startsWith ''- '' (trim line)")
    case True
    let ?item = "case keyValueMatch delim (trim (drop 2 (trim line))) of
                   Some (k, v) \<Rightarrow> ZWListItem (VString v) (Some True) (Some k) (lineDepth line) (Some delim)
                 | None \<Rightarrow> ZWListItem (VString (trim (drop 2 (trim line)))) None None (lineDepth line) (Some delim)"
    have "objDepth ?item = lineDepth line"
      by (simp split: option.splits prod.splits)
    moreover have "processLine delim line stack = pushChild ?item (ensureArray p) # rest"
      unfolding processLine_def Let_def assms(1) using True by simp
    ultimately show ?thesis by blast
  next
    case False
    show ?thesis
    proof (cases "sectionMatch delim (trim line)")
      case (Some k)
      let ?n = "ZWNode k (VArray []) (lineDepth line) (Some delim)"
      have "processLine delim line stack = ?n # pushChild ?n (ensureArray p) # rest"
        unfolding processLine_def Let_def assms(1) using False Some by simp
      moreover have "objDepth ?n = lineDepth line" by simp
      ultimately show ?thesis by blast
    next
      case None
      with False assms(2) obtain k v where kv: "keyValueMatch delim (trim line) = Some (k, v)"
        by (cases "keyValueMatch delim (trim line)") auto
      let ?n = "ZWNode k (VString v) (lineDepth line) (Some delim)"
      have "processLine delim line stack = pushChild ?n (ensureArray p) # rest"
        unfolding processLine_def Let_def assms(1) using False None kv by simp
      moreover have "objDepth ?n = lineDepth line" by simp
      ultimately show ?thesis by blast
    qed
  qed
  then obtain obj where o: "objDepth obj = lineDepth line"
    "processLine delim line stack = pushChild obj (ensureArray p) # rest \<or>
     processLine delim line stack = obj # pushChild obj (ensureArray p) # rest" by blast
  from o(1) have "objDepth obj = max 1 (of_nat (getIndentation line) / 2)"
    by (simp add: lineDepth_def)
  moreover from this have "objDepth obj = 1 \<longleftrightarrow> getIndentation line \<le> 2"
    by (simp only: max_half_eq_1)
  ultimately show ?thesis using o(2) by blast
qed

text \<open>
  A leaf indented by 3 under a section of depth 1.
\<close>

theorem processLine_object_depth_witness:
  "popStack (lineDepth ''   C: 1'')
     [ZWNode ''B'' (VArray []) 1 (Some '':''), ZWNode ''R'' (VArray [ZWNode ''B'' (VArray []) 1 (Some '':'')]) 0 (Some '':'')]
     = [ZWNode ''B'' (VArray []) 1 (Some '':''), ZWNode ''R'' (VArray [ZWNode ''B'' (VArray []) 1 (Some '':'')]) 0 (Some '':'')] \<and>
   keyValueMatch '':'' (trim ''   C: 1'') = Some (''C'', ''1'') \<and>
   (\<exists>obj. objDepth obj = max 1 (of_nat (getIndentation ''   C: 1'') / 2) \<and>
      (objDepth obj = 1 \<longleftrightarrow> getIndentation ''   C: 1'' \<le> 2) \<and>
      (processLine '':'' ''   C: 1''
         [ZWNode ''B'' (VArray []) 1 (Some '':''), ZWNode ''R'' (VArray [ZWNode ''B'' (VArray []) 1 (Some '':'')]) 0 (Some '':'')]
         = pushChild obj (ensureArray (ZWNode ''B'' (VArray []) 1 (Some '':'')))
           # [ZWNode ''R'' (VArray [ZWNode ''B'' (VArray []) 1 (Some '':'')]) 0 (Some '':'')] \<or>
       processLine '':'' ''   C: 1''
         [ZWNode ''B'' (VArray []) 1 (Some '':''), ZWNode ''R'' (VArray [ZWNode ''B'' (VArray []) 1 (Some '':'')]) 0 (Some '':'')]
         = obj # pushChild obj (ensureArray (ZWNode ''B'' (VArray []) 1 (Some '':'')))
           # [ZWNode ''R'' (VArray [ZWNode ''B'' (VArray []) 1 (Some '':'')]) 0 (Some '':'')]))"
proof -
  have a: "popStack (lineDepth ''   C: 1'')
     [ZWNode ''B'' (VArray []) 1 (Some '':''), ZWNode ''R'' (VArray [ZWNode ''B'' (VArray []) 1 (Some '':'')]) 0 (Some '':'')]
     = [ZWNode ''B'' (VArray []) 1 (Some '':''), ZWNode ''R'' (VArray [ZWNode ''B'' (VArray []) 1 (Some '':'')]) 0 (Some '':'')]"
    by code_simp
  have b: "keyValueMatch '':'' (trim ''   C: 1'') = Some (''C'', ''1'')"
    by code_simp
  then have c: "startsWith ''- '' (trim ''   C: 1'') \<or> sectionMatch '':'' (trim ''   C: 1'') \<noteq> None \<or>
         keyValueMatch '':'' (trim ''   C: 1'') \<noteq> None"
    by simp
  from processLine_object_depth [OF a c] a b show ?thesis
    by blast
qed

section \<open>Properties of the serializer\<close>

subsection \<open>Splitting and joining\<close>

lemma splitLines_nonempty: "splitLines s \<noteq> []"
  by (induction s) (auto split: list.splits)

lemma splitLines_no_line_feed: "CHR 0x0A \<notin> set s \<Longrightarrow> splitLines s = [s]"
  by (induction s) auto

lemma splitLines_append_line_feed:
  "CHR 0x0A \<notin> set a \<Longrightarrow> splitLines (a @ CHR 0x0A # b) = a # splitLines b"
  by (induction a) auto

lemma joinWith_Cons:
  "joinWith sep (l # ls) = l @ (if ls = [] then [] else sep @ joinWith sep ls)"
  by (cases ls) simp_all

lemma joinWith_splitLines: "joinWith [CHR 0x0A] (splitLines s) = s"
proof (induction s)
  case Nil
  then show ?case by simp
next
  case (Cons c cs)
  obtain l ls where s: "splitLines cs = l # ls"
    using splitLines_nonempty [of cs] by (cases "splitLines cs") auto
  with Cons show ?case
    by (auto simp: joinWith_Cons split: if_splits)
qed

subsection \<open>Counting quotation marks\<close>

lemma count_escapeQuotes: "count_list (escapeQuotes v) (CHR 0x22) = count_list v (CHR 0x22)"
  by (induction v) (simp_all add: escapeQuotes_def)

lemma count_quoted: "count_list (quoted v) (CHR 0x22) = count_list v (CHR 0x22) + 2"
  by (simp add: quoted_def count_escapeQuotes)

lemma count_indentOf: "count_list (indentOf level) (CHR 0x22) = 0"
  by (simp add: indentOf_def)

lemma count_joinWith_indented:
  "count_list ind (CHR 0x22) = 0 \<Longrightarrow>
   count_list (joinWith [CHR 0x0A] (map (\<lambda>line. ind @ line) ls)) (CHR 0x22)
     = count_list (joinWith [CHR 0x0A] ls) (CHR 0x22)"
  by (induction ls rule: joinWith.induct [where ?a0.0 = "[CHR 0x0A]"]) simp_all

lemma count_indentContinuation:
  "count_list ind (CHR 0x22) = 0 \<Longrightarrow>
   count_list (joinWith [CHR 0x0A] (indentContinuation ind ls)) (CHR 0x22)
     = count_list (joinWith [CHR 0x0A] ls) (CHR 0x22)"
  by (cases ls) (simp_all add: indentContinuation_def joinWith_Cons count_joinWith_indented)

lemma count_multiline:
  "count_list (joinWith [CHR 0x0A] (indentContinuation (indentOf level) (splitLines v))) (CHR 0x22)
     = count_list v (CHR 0x22)"
  by (simp add: count_indentContinuation count_indentOf joinWith_splitLines)

lemma numberRoundTrips_Nil: "\<not> numberRoundTrips fp []"
  by (simp add: numberRoundTrips_def startsWith_def)

subsection \<open>Quoting of strings\<close>

text \<open>
  Claim C7 says that a string is emitted quoted exactly when it is ambiguous (its
  lower-case form is \<^verbatim>\<open>true\<close>, \<^verbatim>\<open>false\<close> or \<^verbatim>\<open>null\<close>, or its text round-trips through
  numeric parsing). The empty string is not ambiguous, and it is emitted quoted, by the
  first branch of \<^verbatim>\<open>convertValueToZw\<close>.
\<close>

theorem convertValueToZw_empty_string_counterexample:
  "convertValueToZw (\<lambda>s. False) (JString []) 0 = quoted [] \<and>
   quoted [] = [CHR 0x22, CHR 0x22] \<and>
   \<not> isPotentiallyAmbiguous (\<lambda>s. False) []"
  by code_simp

text \<open>
  Claim C7 as amended. A non-empty string is emitted between quotation marks, with the
  quotation marks inside it escaped, exactly when its lower-case form is \<^verbatim>\<open>true\<close>,
  \<^verbatim>\<open>false\<close> or \<^verbatim>\<open>null\<close> or its text round-trips through numeric parsing; every other
  non-empty string of a single line is emitted as it is; the empty string is emitted as
  two quotation marks. The string \<^verbatim>\<open>42\<close> is emitted quoted, the number 42 bare.
\<close>

theorem convertValueToZw_string_quoting:
  "(isPotentiallyAmbiguous fp v \<longleftrightarrow>
      toLowerCase v = ''true'' \<or> toLowerCase v = ''false'' \<or> toLowerCase v = ''null'' \<or>
      numberRoundTrips fp v) \<and>
   (isPotentiallyAmbiguous fp v \<longrightarrow> v \<noteq> [] \<and> convertValueToZw fp (JString v) level = quoted v) \<and>
   (v \<noteq> [] \<and> \<not> isPotentiallyAmbiguous fp v \<longrightarrow> convertValueToZw fp (JString v) level \<noteq> quoted v) \<and>
   (v \<noteq> [] \<and> \<not> isPotentiallyAmbiguous fp v \<and> CHR 0x0A \<notin> set v \<longrightarrow>
      convertValueToZw fp (JString v) level = v) \<and>
   convertValueToZw fp (JString []) level = [CHR 0x22, CHR 0x22] \<and>
   convertValueToZw fp (JString ''42'') level = [CHR 0x22] @ ''42'' @ [CHR 0x22] \<and>
   convertValueToZw fp (JNumber 42) level = ''42''"
proof -
  have amb: "isPotentiallyAmbiguous fp v \<longleftrightarrow>
      toLowerCase v = ''true'' \<or> toLowerCase v = ''false'' \<or> toLowerCase v = ''null'' \<or>
      numberRoundTrips fp v"
    using numberRoundTrips_Nil [of fp] by (auto simp: isPotentiallyAmbiguous_def Let_def)
  have ne: "isPotentiallyAmbiguous fp v \<Longrightarrow> v \<noteq> []"
    using numberRoundTrips_Nil [of fp] by (auto simp: isPotentiallyAmbiguous_def Let_def toLowerCase_def)
  have q: "isPotentiallyAmbiguous fp v \<Longrightarrow> convertValueToZw fp (JString v) level = quoted v"
    using ne by simp
  have plain: "v \<noteq> [] \<Longrightarrow> \<not> isPotentiallyAmbiguous fp v \<Longrightarrow> CHR 0x0A \<notin> set v \<Longrightarrow>
      convertValueToZw fp (JString v) level = v"
    by simp
  have differ: "convertValueToZw fp (JString v) level \<noteq> quoted v"
    if "v \<noteq> []" and "\<not> isPotentiallyAmbiguous fp v"
  proof
    assume eq: "convertValueToZw fp (JString v) level = quoted v"
    have "count_list (convertValueToZw fp (JString v) level) (CHR 0x22) = count_list v (CHR 0x22)"
      using that by (simp add: count_multiline)
    with eq show False by (simp add: count_quoted)
  qed
  have s42: "convertValueToZw fp (JString ''42'') level = [CHR 0x22] @ ''42'' @ [CHR 0x22]"
    by code_simp
  have n42: "convertValueToZw fp (JNumber 42) level = ''42''"
    by code_simp
  have e: "convertValueToZw fp (JString []) level = [CHR 0x22, CHR 0x22]"
    by simp
  from amb ne q plain differ e s42 n42 show ?thesis
    by blast
qed

text \<open>
  The strings \<^verbatim>\<open>True\<close> (ambiguous) and \<^verbatim>\<open>hello\<close> (plain) at indent level 1.
\<close>

theorem convertValueToZw_string_quoting_witness:
  "toLowerCase ''True'' = ''true'' \<and>
   convertValueToZw (\<lambda>s. False) (JString ''True'') 1 = quoted ''True'' \<and>
   quoted ''True'' = [CHR 0x22] @ ''True'' @ [CHR 0x22] \<and>
   \<not> isPotentiallyAmbiguous (\<lambda>s. False) ''hello'' \<and>
   convertValueToZw (\<lambda>s. False) (JString ''hello'') 1 = ''hello'' \<and>
   convertValueToZw (\<lambda>s. False) (JString ''42'') 1 = [CHR 0x22] @ ''42'' @ [CHR 0x22] \<and>
   convertValueToZw (\<lambda>s. False) (JNumber 42) 1 = ''42''"
proof -
  have a: "toLowerCase ''True'' = ''true''" by code_simp
  have b: "quoted ''True'' = [CHR 0x22] @ ''True'' @ [CHR 0x22]" by code_simp
  have c: "\<not> isPotentiallyAmbiguous (\<lambda>s. False) ''hello''" by code_simp
  have d: "''hello'' \<noteq> [] \<and> CHR 0x0A \<notin> set ''hello''" by simp
  from convertValueToZw_string_quoting [of "\<lambda>s. False" "''True''" 1] a
  have e: "convertValueToZw (\<lambda>s. False) (JString ''True'') 1 = quoted ''True''"
    by blast
  from convertValueToZw_string_quoting [of "\<lambda>s. False" "''hello''" 1] c d
  have f: "convertValueToZw (\<lambda>s. False) (JString ''hello'') 1 = ''hello''"
    by blast
  from convertValueToZw_string_quoting [of "\<lambda>s. False" "''hello''" 1]
  have g: "convertValueToZw (\<lambda>s. False) (JString ''42'') 1 = [CHR 0x22] @ ''42'' @ [CHR 0x22]"
    "convertValueToZw (\<lambda>s. False) (JNumber 42) 1 = ''42''"
    by blast+
  from a b c e f g show ?thesis by blast
qed

subsection \<open>Invalid JSON\<close>

text \<open>
  Where \<^verbatim>\<open>JSON.parse\<close> throws, whatever the root type, the function returns the text
  \<^verbatim>\<open># Error: Invalid JSON input.\<close>, a line feed, \<^verbatim>\<open>#\<close>, a space and the message of the
  error; there is no other exception path. The text begins with \<^verbatim>\<open># Error:\<close>, and it
  consists of two comment lines whenever the message has no line feed.
\<close>

lemma convertJsonToZwString_invalid_json:
  assumes "jsonParse jsonString = Inl message"
  shows "convertJsonToZwString jsonParse fp jsonString rootZwType
           = ''# Error: Invalid JSON input.'' @ [CHR 0x0A] @ ''# '' @ message \<and>
         startsWith ''# Error:'' (convertJsonToZwString jsonParse fp jsonString rootZwType) \<and>
         (CHR 0x0A \<notin> set message \<longrightarrow>
            splitLines (convertJsonToZwString jsonParse fp jsonString rootZwType)
              = [''# Error: Invalid JSON input.'', ''# '' @ message] \<and>
            list_all (startsWith ''#'')
              (splitLines (convertJsonToZwString jsonParse fp jsonString rootZwType)))"
proof -
  have out: "convertJsonToZwString jsonParse fp jsonString rootZwType
           = ''# Error: Invalid JSON input.'' @ [CHR 0x0A] @ ''# '' @ message"
    using assms by (simp add: convertJsonToZwString_def)
  have st: "startsWith ''# Error:'' (''# Error: Invalid JSON input.'' @ [CHR 0x0A] @ ''# '' @ message)"
    by (simp add: startsWith_def)
  have sp: "splitLines (''# Error: Invalid JSON input.'' @ [CHR 0x0A] @ ''# '' @ message)
              = [''# Error: Invalid JSON input.'', ''# '' @ message]"
    if "CHR 0x0A \<notin> set message"
  proof -
    have "CHR 0x0A \<notin> set ''# Error: Invalid JSON input.''" by simp
    then have "splitLines (''# Error: Invalid JSON input.'' @ CHR 0x0A # (''# '' @ message))
        = ''# Error: Invalid JSON input.'' # splitLines (''# '' @ message)"
      by (rule splitLines_append_line_feed)
    moreover have "splitLines (''# '' @ message) = [''# '' @ message]"
      using that by (intro splitLines_no_line_feed) simp
    ultimately show ?thesis by simp
  qed
  have al: "list_all (startsWith ''#'') [''# Error: Invalid JSON input.'', ''# '' @ message]"
    by (simp add: startsWith_def)
  from out st sp al show ?thesis by simp
qed

text \<open>
  Claim C8: for every input the function returns a string and never throws, and on invalid
  JSON the string is a comment-only document, every line of which begins with \<^verbatim>\<open>#\<close>. The
  first part holds (the lemma above). The second fails where the message of the host's
  error has more than one line: only its first line is put behind \<^verbatim>\<open>#\<close>. V8 quotes the
  source text in the message; for the text \<^verbatim>\<open>[\<close>, line feed, \<^verbatim>\<open>x]\<close> the message is
  \<^verbatim>\<open>Unexpected token 'x', "[\<close>, line feed, \<^verbatim>\<open>x]" is not valid JSON\<close>, and the third line of
  the returned text is not a comment.
\<close>

theorem convertJsonToZwString_multiline_message:
  "splitLines
     (convertJsonToZwString
        (\<lambda>s. Inl (''Unexpected token '' @ [CHR 0x27] @ ''x'' @ [CHR 0x27] @ '', '' @ [CHR 0x22] @ s @ [CHR 0x22]
                   @ '' is not valid JSON''))
        (\<lambda>s. False) ''[\<newline>x]'' None)
     = [''# Error: Invalid JSON input.'',
        ''# Unexpected token '' @ [CHR 0x27] @ ''x'' @ [CHR 0x27] @ '', '' @ [CHR 0x22] @ ''['',
        ''x]'' @ [CHR 0x22] @ '' is not valid JSON''] \<and>
   \<not> list_all (startsWith ''#'')
       (splitLines
          (convertJsonToZwString
             (\<lambda>s. Inl (''Unexpected token '' @ [CHR 0x27] @ ''x'' @ [CHR 0x27] @ '', '' @ [CHR 0x22] @ s @ [CHR 0x22]
                        @ '' is not valid JSON''))
             (\<lambda>s. False) ''[\<newline>x]'' None))"
  by code_simp

subsection \<open>The host's parser as a parameter\<close>

lemma convertJsonToZwString_host:
  "jsonParse jsonString = r \<Longrightarrow>
   convertJsonToZwString jsonParse fp jsonString rootZwType
     = convertJsonToZwString (\<lambda>s. r) fp jsonString rootZwType"
  by (simp add: convertJsonToZwString_def)

subsection \<open>The first significant line of a text\<close>

lemma trimEnd_append:
  "trimEnd (a @ b) = (if list_all isWhiteSpace b then trimEnd a else a @ trimEnd b)"
  by (simp add: trimEnd_def dropWhile_append list_all_iff)

lemma trimEnd_id: "s \<noteq> [] \<Longrightarrow> \<not> isWhiteSpace (last s) \<Longrightarrow> trimEnd s = s"
  by (cases s rule: rev_cases) (simp_all add: trimEnd_def)

lemma trimStart_id: "s \<noteq> [] \<Longrightarrow> \<not> isWhiteSpace (hd s) \<Longrightarrow> trimStart s = s"
  by (cases s) (simp_all add: trimStart_def)

lemma codeFenceMatch_other_start:
  "s \<noteq> [] \<Longrightarrow> hd s \<noteq> CHR 0x60 \<Longrightarrow> codeFenceMatch s = None"
  by (cases s) (auto simp: codeFenceMatch_def fence_def take_Cons' split: if_splits)

lemma semanticLines_first_line:
  assumes "l \<noteq> []" and "\<not> isWhiteSpace (hd l)" and "\<not> isWhiteSpace (last l)"
    and "CHR 0x0A \<notin> set l" and "hd l \<noteq> CHR ''#''" and "hd l \<noteq> CHR 0x60"
  shows "\<exists>rest. semanticLines (l @ CHR 0x0A # x) = l # rest"
proof -
  let ?s = "l @ CHR 0x0A # x"
  have ts: "trimStart ?s = ?s"
    using assms(1,2) by (intro trimStart_id) simp_all
  have tl: "trimEnd l = l" using assms(1,3) by (rule trimEnd_id)
  have nl: "isWhiteSpace (CHR 0x0A)" by (simp add: isWhiteSpace_def)
  have "\<exists>y. trim ?s = l \<or> trim ?s = l @ CHR 0x0A # y"
  proof (cases "list_all isWhiteSpace x")
    case True
    with nl have "list_all isWhiteSpace (CHR 0x0A # x)" by simp
    then have "trimEnd ?s = l"
      using trimEnd_append [of l "CHR 0x0A # x"] tl by simp
    then show ?thesis by (simp add: trim_def ts)
  next
    case False
    then have "trimEnd ([CHR 0x0A] @ x) = [CHR 0x0A] @ trimEnd x"
      by (simp only: trimEnd_append if_False)
    moreover from False have "\<not> list_all isWhiteSpace (CHR 0x0A # x)" by simp
    then have "trimEnd (l @ CHR 0x0A # x) = l @ trimEnd (CHR 0x0A # x)"
      by (simp only: trimEnd_append if_False)
    ultimately have "trimEnd ?s = l @ CHR 0x0A # trimEnd x" by simp
    then show ?thesis by (simp add: trim_def ts)
  qed
  then obtain y where t: "trim ?s = l \<or> trim ?s = l @ CHR 0x0A # y" by blast
  have hd: "trim ?s \<noteq> []" "hd (trim ?s) = hd l"
    using t assms(1) by auto
  then have "codeFenceMatch (trim ?s) = None"
    using assms(6) by (intro codeFenceMatch_other_start) simp_all
  then have p: "processedZwString ?s = trim ?s"
    by (simp add: processedZwString_def)
  have "trim l = l"
    using assms(1,2,3) by (simp add: trim_def trimStart_id trimEnd_id)
  moreover have "\<not> startsWith ''#'' l"
    using assms(1,5) by (cases l) (simp_all add: startsWith_def)
  ultimately have sem: "isSemantic l"
    using assms(1) by (simp add: isSemantic_def)
  from t have "\<exists>ls. splitLines (trim ?s) = l # ls"
    using splitLines_no_line_feed [OF assms(4)] splitLines_append_line_feed [OF assms(4)]
    by auto
  then show ?thesis
    using sem by (auto simp: semanticLines_def p)
qed

lemma spec_rootDeclaration_array_label: "spec_rootDeclaration ''JSON_ARRAY_ROOT:''"
proof -
  have "rootLineMatch ''JSON_ARRAY_ROOT:'' = Some ''JSON_ARRAY_ROOT''" by code_simp
  then show ?thesis by (simp add: spec_rootDeclaration_iff)
qed

lemma spec_rootDeclaration_primitive_label: "spec_rootDeclaration ''JSON_PRIMITIVE_ROOT:''"
proof -
  have "rootLineMatch ''JSON_PRIMITIVE_ROOT:'' = Some ''JSON_PRIMITIVE_ROOT''" by code_simp
  then show ?thesis by (simp add: spec_rootDeclaration_iff)
qed

lemma label_lines:
  "\<exists>rest. semanticLines (''JSON_ARRAY_ROOT:'' @ CHR 0x0A # x) = ''JSON_ARRAY_ROOT:'' # rest"
  "\<exists>rest. semanticLines (''JSON_PRIMITIVE_ROOT:'' @ CHR 0x0A # x) = ''JSON_PRIMITIVE_ROOT:'' # rest"
  by (rule semanticLines_first_line; simp add: isWhiteSpace_def)+

subsection \<open>The root label\<close>

text \<open>
  Claim C3 says that without a root type the first line of the output is a synthetic
  root label for every JSON value. For a JSON object no label is emitted: the value of
  \<^verbatim>\<open>{"a":1}\<close> is serialized as the single line \<^verbatim>\<open>a: 1\<close>, which is not a root declaration
  and which \<^verbatim>\<open>parseZW\<close> rejects.
\<close>

theorem convertJsonToZwString_object_root_counterexample:
  "convertJsonToZwString (\<lambda>s. Inr (JObject [(''a'', JNumber 1)])) (\<lambda>s. False)
     (''{'' @ [CHR 0x22] @ ''a'' @ [CHR 0x22] @ '':1}'') None = ''a: 1'' \<and>
   semanticLines ''a: 1'' = [''a: 1''] \<and>
   \<not> spec_rootDeclaration ''a: 1'' \<and>
   parseZW ''a: 1'' None
     = Some (ZWNode ''Error: Invalid Root'' (VString (invalidRootMessage ''a: 1'')) 0 None)"
proof -
  have a: "convertJsonToZwString (\<lambda>s. Inr (JObject [(''a'', JNumber 1)])) (\<lambda>s. False)
     (''{'' @ [CHR 0x22] @ ''a'' @ [CHR 0x22] @ '':1}'') None = ''a: 1''"
    by code_simp
  have b: "semanticLines ''a: 1'' = [''a: 1'']"
    by code_simp
  have "rootLineMatch ''a: 1'' = None"
    by code_simp
  then have c: "\<not> spec_rootDeclaration ''a: 1''"
    by (simp add: spec_rootDeclaration_iff)
  have d: "parseZW ''a: 1'' None
     = Some (ZWNode ''Error: Invalid Root'' (VString (invalidRootMessage ''a: 1'')) 0 None)"
    by code_simp
  from a b c d show ?thesis by blast
qed

text \<open>
  Claim C3 as amended. Without a root type, a JSON array is serialized behind the first
  line \<^verbatim>\<open>JSON_ARRAY_ROOT:\<close> and a primitive (null, boolean, number, string) behind the first
  line \<^verbatim>\<open>JSON_PRIMITIVE_ROOT:\<close>; in both cases that label is the first significant line of
  the output and is a root declaration. For a JSON object no label is added: the output
  is the text of the object's own properties at indent level 0.
\<close>

theorem convertJsonToZwString_synthetic_root:
  assumes "jsonParse jsonString = Inr parsedJson"
  shows "case parsedJson of
           JObject obj \<Rightarrow>
             convertJsonToZwString jsonParse fp jsonString None = convertObjectToZwItems fp obj 0 False
         | JArray items \<Rightarrow>
             convertJsonToZwString jsonParse fp jsonString None
               = ''JSON_ARRAY_ROOT:'' @ [CHR 0x0A] @ convertValueToZw fp parsedJson 0 \<and>
             (\<exists>rest. semanticLines (convertJsonToZwString jsonParse fp jsonString None)
                      = ''JSON_ARRAY_ROOT:'' # rest) \<and>
             spec_rootDeclaration ''JSON_ARRAY_ROOT:''
         | _ \<Rightarrow>
             convertJsonToZwString jsonParse fp jsonString None
               = ''JSON_PRIMITIVE_ROOT:'' @ [CHR 0x0A] @ ''ROOT_VALUE: '' @ convertValueToZw fp parsedJson 0 \<and>
             (\<exists>rest. semanticLines (convertJsonToZwString jsonParse fp jsonString None)
                      = ''JSON_PRIMITIVE_ROOT:'' # rest) \<and>
             spec_rootDeclaration ''JSON_PRIMITIVE_ROOT:''"
proof -
  have none: "\<not> hasRootType None" "rootTypeMissing None" "indentOf 0 = []"
    by (simp_all add: hasRootType_def rootTypeMissing_def indentOf_def)
  show ?thesis
  proof (cases parsedJson)
    case (JObject obj)
    with assms none show ?thesis
      by (simp add: convertJsonToZwString_def del: convertValueToZw.simps convertObjectToZwItems.simps)
  next
    case (JArray items)
    with assms none have out: "convertJsonToZwString jsonParse fp jsonString None
               = ''JSON_ARRAY_ROOT:'' @ CHR 0x0A # convertValueToZw fp parsedJson 0"
      by (simp add: convertJsonToZwString_def del: convertValueToZw.simps)
    with JArray label_lines(1) spec_rootDeclaration_array_label show ?thesis
      by (simp del: convertValueToZw.simps)
  next
    case JNull
    with assms none have out: "convertJsonToZwString jsonParse fp jsonString None
               = ''JSON_PRIMITIVE_ROOT:'' @ CHR 0x0A # ''ROOT_VALUE: '' @ convertValueToZw fp parsedJson 0"
      by (simp add: convertJsonToZwString_def del: convertValueToZw.simps)
    with JNull label_lines(2) spec_rootDeclaration_primitive_label show ?thesis
      by (simp del: convertValueToZw.simps)
  next
    case (JBool b)
    with assms none have out: "convertJsonToZwString jsonParse fp jsonString None
               = ''JSON_PRIMITIVE_ROOT:'' @ CHR 0x0A # ''ROOT_VALUE: '' @ convertValueToZw fp parsedJson 0"
      by (simp add: convertJsonToZwString_def del: convertValueToZw.simps)
    with JBool label_lines(2) spec_rootDeclaration_primitive_label show ?thesis
      by (simp del: convertValueToZw.simps)
  next
    case (JNumber n)
    with assms none have out: "convertJsonToZwString jsonParse fp jsonString None
               = ''JSON_PRIMITIVE_ROOT:'' @ CHR 0x0A # ''ROOT_VALUE: '' @ convertValueToZw fp parsedJson 0"
      by (simp add: convertJsonToZwString_def del: convertValueToZw.simps)
    with JNumber label_lines(2) spec_rootDeclaration_primitive_label show ?thesis
      by (simp del: convertValueToZw.simps)
  next
    case (JString v)
    with assms none have out: "convertJsonToZwString jsonParse fp jsonString None
               = ''JSON_PRIMITIVE_ROOT:'' @ CHR 0x0A # ''ROOT_VALUE: '' @ convertValueToZw fp parsedJson 0"
      by (simp add: convertJsonToZwString_def del: convertValueToZw.simps)
    with JString label_lines(2) spec_rootDeclaration_primitive_label show ?thesis
      by (simp del: convertValueToZw.simps)
  qed
qed

text \<open>
  The array \<^verbatim>\<open>[1]\<close>.
\<close>

theorem convertJsonToZwString_synthetic_root_witness:
  "(\<lambda>s. Inr (JArray [JNumber 1]) :: string + json) ''[1]'' = Inr (JArray [JNumber 1]) \<and>
   convertJsonToZwString (\<lambda>s. Inr (JArray [JNumber 1])) (\<lambda>s. False) ''[1]'' None
     = ''JSON_ARRAY_ROOT:\<newline>- 1'' \<and>
   (\<exists>rest. semanticLines (convertJsonToZwString (\<lambda>s. Inr (JArray [JNumber 1])) (\<lambda>s. False) ''[1]'' None)
            = ''JSON_ARRAY_ROOT:'' # rest) \<and>
   spec_rootDeclaration ''JSON_ARRAY_ROOT:''"
proof -
  have a: "(\<lambda>s. Inr (JArray [JNumber 1]) :: string + json) ''[1]'' = Inr (JArray [JNumber 1])"
    by simp
  have b: "convertValueToZw (\<lambda>s. False) (JArray [JNumber 1]) 0 = ''- 1''"
    by code_simp
  note t = convertJsonToZwString_synthetic_root
         [of "\<lambda>s. Inr (JArray [JNumber 1])" "''[1]''" "JArray [JNumber 1]" "\<lambda>s. False", OF a,
          unfolded json.case]
  from t have "convertJsonToZwString (\<lambda>s. Inr (JArray [JNumber 1])) (\<lambda>s. False) ''[1]'' None
               = ''JSON_ARRAY_ROOT:\<newline>- 1''"
    unfolding b by simp
  with t a show ?thesis by blast
qed

subsection \<open>Round trips through the parser\<close>

text \<open>
  Claim C5. The value of \<^verbatim>\<open>{"items":[{"x":1},{"x":2}]}\<close> is serialized with the two
  lines \<^verbatim>\<open>- x: 1\<close> and \<^verbatim>\<open>- x: 2\<close>, indented one level below the line \<^verbatim>\<open>items:\<close>, and
  \<^verbatim>\<open>parseZW\<close> of that output has, under the key \<^verbatim>\<open>items\<close>, exactly two list items with
  \<^verbatim>\<open>isKeyValue\<close> true and \<^verbatim>\<open>itemKey\<close> \<^verbatim>\<open>x\<close> (values \<^verbatim>\<open>1\<close> and \<^verbatim>\<open>2\<close>). This holds
  without a root type, where \<^verbatim>\<open>items\<close> becomes the root, and under the root type
  \<^verbatim>\<open>ZW-TEST\<close>.
\<close>

theorem list_of_objects_round_trip:
  assumes "jsonParse jsonString
             = Inr (JObject [(''items'', JArray [JObject [(''x'', JNumber 1)], JObject [(''x'', JNumber 2)]])])"
  shows "convertJsonToZwString jsonParse fp jsonString None
           = ''items:\<newline>  - x: 1\<newline>  - x: 2'' \<and>
         parseZW (convertJsonToZwString jsonParse fp jsonString None) None
           = Some (ZWNode ''items''
                     (VArray [ZWListItem (VString ''1'') (Some True) (Some ''x'') 1 (Some '':''),
                              ZWListItem (VString ''2'') (Some True) (Some ''x'') 1 (Some '':'')])
                     0 (Some '':'')) \<and>
         convertJsonToZwString jsonParse fp jsonString (Some ''ZW-TEST'')
           = ''ZW-TEST:\<newline>  items:\<newline>    - x: 1\<newline>    - x: 2'' \<and>
         parseZW (convertJsonToZwString jsonParse fp jsonString (Some ''ZW-TEST'')) None
           = Some (ZWNode ''ZW-TEST''
                     (VArray [ZWNode ''items''
                                (VArray [ZWListItem (VString ''1'') (Some True) (Some ''x'') 2 (Some '':''),
                                         ZWListItem (VString ''2'') (Some True) (Some ''x'') 2 (Some '':'')])
                                1 (Some '':'')])
                     0 (Some '':''))"
proof -
  let ?j = "JObject [(''items'', JArray [JObject [(''x'', JNumber 1)], JObject [(''x'', JNumber 2)]])]"
  have a: "convertJsonToZwString (\<lambda>s. Inr ?j) fp jsonString None
           = ''items:\<newline>  - x: 1\<newline>  - x: 2''"
    by code_simp
  have b: "parseZW ''items:\<newline>  - x: 1\<newline>  - x: 2'' None
           = Some (ZWNode ''items''
                     (VArray [ZWListItem (VString ''1'') (Some True) (Some ''x'') 1 (Some '':''),
                              ZWListItem (VString ''2'') (Some True) (Some ''x'') 1 (Some '':'')])
                     0 (Some '':''))"
    by code_simp
  have c: "convertJsonToZwString (\<lambda>s. Inr ?j) fp jsonString (Some ''ZW-TEST'')
           = ''ZW-TEST:\<newline>  items:\<newline>    - x: 1\<newline>    - x: 2''"
    by code_simp
  have d: "parseZW ''ZW-TEST:\<newline>  items:\<newline>    - x: 1\<newline>    - x: 2'' None
           = Some (ZWNode ''ZW-TEST''
                     (VArray [ZWNode ''items''
                                (VArray [ZWListItem (VString ''1'') (Some True) (Some ''x'') 2 (Some '':''),
                                         ZWListItem (VString ''2'') (Some True) (Some ''x'') 2 (Some '':'')])
                                1 (Some '':'')])
                     0 (Some '':''))"
    by code_simp
  have h: "convertJsonToZwString jsonParse fp jsonString r = convertJsonToZwString (\<lambda>s. Inr ?j) fp jsonString r"
    for r using assms by (rule convertJsonToZwString_host)
  show ?thesis
    unfolding h a c using b d by (simp only: simp_thms)
qed

text \<open>
  A host that returns the value above.
\<close>

theorem list_of_objects_round_trip_witness:
  "(\<lambda>s. Inr (JObject [(''items'', JArray [JObject [(''x'', JNumber 1)], JObject [(''x'', JNumber 2)]])]) :: string + json) []
     = Inr (JObject [(''items'', JArray [JObject [(''x'', JNumber 1)], JObject [(''x'', JNumber 2)]])]) \<and>
   convertJsonToZwString
     (\<lambda>s. Inr (JObject [(''items'', JArray [JObject [(''x'', JNumber 1)], JObject [(''x'', JNumber 2)]])]))
     (\<lambda>s. False) [] None
     = ''items:\<newline>  - x: 1\<newline>  - x: 2''"
proof -
  have a: "(\<lambda>s. Inr (JObject [(''items'', JArray [JObject [(''x'', JNumber 1)], JObject [(''x'', JNumber 2)]])]) :: string + json) []
     = Inr (JObject [(''items'', JArray [JObject [(''x'', JNumber 1)], JObject [(''x'', JNumber 2)]])])"
    by simp
  from list_of_objects_round_trip
         [of "\<lambda>s. Inr (JObject [(''items'', JArray [JObject [(''x'', JNumber 1)], JObject [(''x'', JNumber 2)]])])"
             "[]" "\<lambda>s. False", OF a] a
  show ?thesis by blast
qed

subsection \<open>Lines made of key characters\<close>

lemma keyChar_facts:
  assumes "isKeyChar c"
  shows "\<not> isWhiteSpace c" and "\<not> isLineTerminator c" and "c \<noteq> CHR 0x0A" and "c \<noteq> CHR '':''"
    and "c \<noteq> CHR ''#''" and "c \<noteq> CHR ''-''" and "c \<noteq> CHR 0x60"
proof -
  have "\<not> isKeyChar (CHR 0x09)" "\<not> isKeyChar (CHR 0x0A)" "\<not> isKeyChar (CHR 0x0B)"
    "\<not> isKeyChar (CHR 0x0C)" "\<not> isKeyChar (CHR 0x0D)" "\<not> isKeyChar (CHR 0x20)"
    "\<not> isKeyChar (CHR 0xA0)" "\<not> isKeyChar CHR '':''" "\<not> isKeyChar CHR ''#''"
    "\<not> isKeyChar CHR ''-''" "\<not> isKeyChar (CHR 0x60)"
    by (simp_all add: isKeyChar_def isAsciiUpper_def isAsciiLower_def isAsciiDigit_def)
  with assms show "\<not> isWhiteSpace c" and "\<not> isLineTerminator c" and "c \<noteq> CHR 0x0A" and "c \<noteq> CHR '':''"
    and "c \<noteq> CHR ''#''" and "c \<noteq> CHR ''-''" and "c \<noteq> CHR 0x60"
    by (auto simp: isWhiteSpace_def isLineTerminator_def)
qed

lemma trim_indented:
  assumes "s \<noteq> []" and "\<not> isWhiteSpace (hd s)" and "\<not> isWhiteSpace (last s)"
  shows "trim (replicate n (CHR '' '') @ s) = s"
proof -
  have sp: "isWhiteSpace (CHR '' '')" by (simp add: isWhiteSpace_def)
  have "dropWhile isWhiteSpace (replicate n (CHR '' '') @ s) = s"
    using assms(1,2) sp by (cases s) (simp_all add: dropWhile_append3 dropWhile_append)
  then show ?thesis
    using assms(1,3) by (simp add: trim_def trimStart_def trimEnd_id)
qed

lemma getIndentation_indented:
  assumes "s \<noteq> []" and "\<not> isWhiteSpace (hd s)"
  shows "getIndentation (replicate n (CHR '' '') @ s) = n"
proof -
  have sp: "isWhiteSpace (CHR '' '')" by (simp add: isWhiteSpace_def)
  have "takeWhile isWhiteSpace (replicate n (CHR '' '') @ s) = replicate n (CHR '' '')"
    using assms sp by (induction n) (cases s, simp_all)
  then show ?thesis by (simp add: getIndentation_def)
qed

lemma lineDepth_small: "n \<le> 2 \<Longrightarrow> s \<noteq> [] \<Longrightarrow> \<not> isWhiteSpace (hd s) \<Longrightarrow>
  lineDepth (replicate n (CHR '' '') @ s) = 1"
  by (simp add: lineDepth_def getIndentation_indented max_half_eq_1)

lemma keyDelimMatch_inside_key:
  assumes "\<forall>c \<in> set k. isKeyChar c" and "n < length k"
  shows "keyDelimMatch tailMatch '':'' (k @ r) n = None"
  using assms(2)
proof (induction n)
  case 0
  then show ?case by simp
next
  case (Suc n)
  then have "isKeyChar (k ! Suc n)" using assms(1) by simp
  then have "k ! Suc n \<noteq> CHR '':''" by (rule keyChar_facts)
  moreover have "drop (Suc n) (k @ r) = k ! Suc n # drop (Suc (Suc n)) (k @ r)"
    using Suc.prems by (metis Cons_nth_drop_Suc length_append nth_append trans_less_add1)
  ultimately have "\<not> startsWith '':'' (drop (Suc n) (k @ r))"
    by (simp add: startsWith_def)
  with Suc show ?case by simp
qed

lemma keyDelimMatch_at_key:
  assumes "k \<noteq> []" and "\<forall>c \<in> set k. isKeyChar c"
  shows "keyDelimMatch tailMatch '':'' (k @ CHR '':'' # r) (length k)
           = (case tailMatch r of Some v \<Rightarrow> Some (k, v) | None \<Rightarrow> None)"
proof -
  from assms(1) obtain m where m: "length k = Suc m" by (cases k) auto
  then have lt: "m < length k" by simp
  have inner: "keyDelimMatch tailMatch '':'' (k @ CHR '':'' # r) m = None"
    using keyDelimMatch_inside_key [OF assms(2) lt] .
  have "startsWith '':'' (drop (Suc m) (k @ CHR '':'' # r))"
    using m by (simp add: startsWith_def)
  moreover have "drop (Suc m + length '':'') (k @ CHR '':'' # r) = r" using m by simp
  moreover have "take (Suc m) (k @ CHR '':'' # r) = k" using m by simp
  ultimately show ?thesis
    unfolding m using inner by (simp split: option.splits)
qed

lemma keyDelimMatch_no_colon:
  assumes "\<forall>c \<in> set l. isKeyChar c"
  shows "keyDelimMatch tailMatch '':'' l n = None"
proof (induction n)
  case 0
  then show ?case by simp
next
  case (Suc n)
  have "\<not> startsWith '':'' (drop (Suc n) l)"
  proof (cases "drop (Suc n) l")
    case Nil
    then show ?thesis by (simp add: startsWith_def)
  next
    case (Cons c cs)
    then have "c \<in> set l" by (metis in_set_dropD list.set_intros(1))
    with assms have "c \<noteq> CHR '':''" using keyChar_facts(4) by blast
    with Cons show ?thesis by (simp add: startsWith_def)
  qed
  with Suc show ?case by simp
qed

lemma rootChar_facts:
  assumes "isRootChar c"
  shows "\<not> isWhiteSpace c" and "c \<noteq> CHR 0x0A" and "c \<noteq> CHR ''#''" and "c \<noteq> CHR 0x60"
proof -
  have d: "\<not> isWhiteSpace (CHR ''-'')" by (simp add: isWhiteSpace_def)
  from assms have "isKeyChar c \<or> c = CHR ''-''" by (simp add: isRootChar_def)
  then show "\<not> isWhiteSpace c" and "c \<noteq> CHR 0x0A" and "c \<noteq> CHR ''#''" and "c \<noteq> CHR 0x60"
    using keyChar_facts [of c] d by auto
qed

lemma pushChild_empty_root:
  "pushChild c (ZWNode r (VArray cs) d dl) = ZWNode r (VArray (cs @ [c])) d dl"
  by (simp add: pushChild_def children_def)

lemma ensureArray_array: "ensureArray (ZWNode r (VArray cs) d dl) = ZWNode r (VArray cs) d dl"
  by (simp add: ensureArray_def)

lemma processLine_leaf:
  assumes "k \<noteq> []" and "\<forall>c \<in> set k. isKeyChar c"
    and "l \<noteq> []" and "\<forall>c \<in> set l. isKeyChar c" and "n \<le> 2"
  shows "processLine '':'' (replicate n (CHR '' '') @ k @ CHR '':'' # CHR '' '' # l) [ZWNode r (VArray cs) 0 dl]
           = [ZWNode r (VArray (cs @ [ZWNode k (VString l) 1 (Some '':'')])) 0 dl]"
proof -
  let ?t = "k @ CHR '':'' # CHR '' '' # l"
  let ?line = "replicate n (CHR '' '') @ ?t"
  from assms(1,2) have hk: "isKeyChar (hd k)" by (cases k) auto
  from assms(3,4) have hl: "isKeyChar (hd l)" and ll: "isKeyChar (last l)" by (cases l, auto)
  have t_ne: "?t \<noteq> []" and t_hd: "\<not> isWhiteSpace (hd ?t)" and t_last: "\<not> isWhiteSpace (last ?t)"
    using assms(1,3) hk ll keyChar_facts(1) by simp_all
  have tr: "trim ?line = ?t" using trim_indented [OF t_ne t_hd t_last] .
  have dp: "lineDepth ?line = 1" using lineDepth_small [OF assms(5) t_ne t_hd] .
  have nolist: "\<not> startsWith ''- '' ?t"
    using assms(1) hk keyChar_facts(6) by (cases k) (auto simp: startsWith_def)
  have tw: "takeWhile isKeyChar ?t = k"
    using assms(2) by (simp add: takeWhile_append2 isKeyChar_def isAsciiUpper_def isAsciiLower_def isAsciiDigit_def)
  have st: "sectionTail (CHR '' '' # l) = None"
    using assms(3) hl keyChar_facts(1) by (cases l) (auto simp: sectionTail_def)
  have kt: "keyValueTail (CHR '' '' # l) = Some l"
  proof -
    have "dropWhile isWhiteSpace (CHR '' '' # l) = l"
      using assms(3) hl keyChar_facts(1) by (cases l) (auto simp: isWhiteSpace_def)
    moreover have "\<not> list_ex isLineTerminator l"
      using assms(4) keyChar_facts(2) by (auto simp: list_ex_iff)
    ultimately show ?thesis by (simp add: keyValueTail_def)
  qed
  have sec: "sectionMatch '':'' ?t = None"
    using keyDelimMatch_at_key [OF assms(1,2), of sectionTail "CHR '' '' # l"] st
    by (simp add: sectionMatch_def tw)
  have kv: "keyValueMatch '':'' ?t = Some (k, l)"
    using keyDelimMatch_at_key [OF assms(1,2), of keyValueTail "CHR '' '' # l"] kt
    by (simp add: keyValueMatch_def tw)
  show ?thesis
    unfolding processLine_def Let_def tr dp
    using nolist sec kv by (simp add: ensureArray_array pushChild_empty_root)
qed

lemma processLine_continuation:
  assumes "l \<noteq> []" and "\<forall>c \<in> set l. isKeyChar c" and "n \<le> 2"
  shows "processLine '':'' (replicate n (CHR '' '') @ l)
           [ZWNode r (VArray [ZWNode k (VString v) d' dl']) 0 dl]
           = [ZWNode r (VArray [ZWNode k (VString (v @ CHR 0x0A # l)) d' dl']) 0 dl]"
proof -
  let ?line = "replicate n (CHR '' '') @ l"
  from assms(1,2) have hl: "isKeyChar (hd l)" and ll: "isKeyChar (last l)" by (cases l, auto)
  have l_hd: "\<not> isWhiteSpace (hd l)" and l_last: "\<not> isWhiteSpace (last l)"
    using hl ll keyChar_facts(1) by simp_all
  have tr: "trim ?line = l" using trim_indented [OF assms(1) l_hd l_last] .
  have dp: "lineDepth ?line = 1" using lineDepth_small [OF assms(3) assms(1) l_hd] .
  have ind: "getIndentation ?line = n" using getIndentation_indented [OF assms(1) l_hd] .
  have nolist: "\<not> startsWith ''- '' l"
    using assms(1) hl keyChar_facts(6) by (cases l) (auto simp: startsWith_def)
  have sec: "sectionMatch '':'' l = None"
    using keyDelimMatch_no_colon [OF assms(2)] by (simp add: sectionMatch_def)
  have kv: "keyValueMatch '':'' l = None"
    using keyDelimMatch_no_colon [OF assms(2)] by (simp add: keyValueMatch_def)
  show ?thesis
    unfolding processLine_def Let_def tr dp ind
    using nolist sec kv assms(1)
    by (simp add: ensureArray_array children_def appendToLastChild_def)
qed

lemma trim_id:
  "s \<noteq> [] \<Longrightarrow> \<not> isWhiteSpace (hd s) \<Longrightarrow> \<not> isWhiteSpace (last s) \<Longrightarrow> trim s = s"
  by (simp add: trim_def trimStart_id trimEnd_id)

lemma isSemantic_indented:
  assumes "s \<noteq> []" and "\<not> isWhiteSpace (hd s)" and "\<not> isWhiteSpace (last s)" and "hd s \<noteq> CHR ''#''"
  shows "isSemantic (replicate n (CHR '' '') @ s)"
  using assms trim_indented [OF assms(1,2,3), of n]
  by (cases s) (simp_all add: isSemantic_def startsWith_def)

lemma parseZW_leaf_with_continuation:
  assumes "rootLineMatch (r @ '':'') = Some r"
    and "k \<noteq> []" and "\<forall>c \<in> set k. isKeyChar c"
    and "l1 \<noteq> []" and "\<forall>c \<in> set l1. isKeyChar c"
    and "l2 \<noteq> []" and "\<forall>c \<in> set l2. isKeyChar c"
    and "n \<le> 2"
  shows "parseZW ((r @ '':'') @ CHR 0x0A # (replicate n (CHR '' '') @ k @ CHR '':'' # CHR '' '' # l1)
                   @ CHR 0x0A # (replicate n (CHR '' '') @ l2)) None
           = Some (ZWNode r (VArray [ZWNode k (VString (l1 @ CHR 0x0A # l2)) 1 (Some '':'')]) 0 (Some '':''))"
proof -
  let ?A = "r @ '':''"
  let ?tB = "k @ CHR '':'' # CHR '' '' # l1"
  let ?B = "replicate n (CHR '' '') @ ?tB"
  let ?C = "replicate n (CHR '' '') @ l2"
  let ?zw = "?A @ CHR 0x0A # ?B @ CHR 0x0A # ?C"
  from assms(1) have r_ne: "r \<noteq> []" and r_all: "\<forall>c \<in> set r. isRootChar c"
    by (simp_all add: rootLineMatch_iff list_all_iff)
  then have r_hd: "isRootChar (hd r)" by (cases r) auto
  from assms(2,3) have k_hd: "isKeyChar (hd k)" by (cases k) auto
  from assms(4,5) have l1_last: "isKeyChar (last l1)" by (cases l1 rule: rev_cases) auto
  from assms(6,7) have l2_hd: "isKeyChar (hd l2)" and l2_last: "isKeyChar (last l2)"
    by (cases l2, auto)
  have sp: "CHR '' '' \<noteq> CHR 0x0A" by simp
  have nlA: "CHR 0x0A \<notin> set ?A" using r_all rootChar_facts(2) by auto
  have nlB: "CHR 0x0A \<notin> set ?B" using assms(3,5) keyChar_facts(3) by auto
  have nlC: "CHR 0x0A \<notin> set ?C" using assms(7) keyChar_facts(3) by auto
  have zw_ne: "?zw \<noteq> []" using r_ne by simp
  have zw_hd: "hd ?zw = hd r" using r_ne by simp
  have zw_last: "last ?zw = last l2" using assms(6) by simp
  have tz: "trim ?zw = ?zw"
    using trim_id [OF zw_ne] zw_hd zw_last r_hd l2_last rootChar_facts(1) keyChar_facts(1)
    by presburger
  have "codeFenceMatch ?zw = None"
    using codeFenceMatch_other_start [OF zw_ne] zw_hd r_hd rootChar_facts(4) by presburger
  then have pz: "processedZwString ?zw = ?zw"
    by (simp add: processedZwString_def tz del: append_assoc)
  have "splitLines (?B @ CHR 0x0A # ?C) = [?B, ?C]"
    using splitLines_append_line_feed [OF nlB, of ?C] splitLines_no_line_feed [OF nlC] by simp
  then have sl: "splitLines ?zw = [?A, ?B, ?C]"
    using splitLines_append_line_feed [OF nlA, of "?B @ CHR 0x0A # ?C"] by simp
  have semA: "isSemantic ?A"
    using isSemantic_indented [of ?A 0] r_ne r_hd rootChar_facts(1,3) by (simp add: isWhiteSpace_def)
  have semB: "isSemantic ?B"
    using isSemantic_indented [of ?tB n] assms(2,4) k_hd l1_last keyChar_facts(1,5) by simp
  have semC: "isSemantic ?C"
    using isSemantic_indented [of l2 n] assms(6) l2_hd l2_last keyChar_facts(1,5) by simp
  have lines: "semanticLines ?zw = [?A, ?B, ?C]"
    using semA semB semC by (simp add: semanticLines_def pz sl del: append_assoc)
  have step1: "processLine '':'' ?B [ZWNode r (VArray []) 0 (Some '':'')]
      = [ZWNode r (VArray [ZWNode k (VString l1) 1 (Some '':'')]) 0 (Some '':'')]"
    using processLine_leaf [OF assms(2,3,4,5,8), of r "[]" "Some '':''"] by simp
  have step2: "processLine '':'' ?C [ZWNode r (VArray [ZWNode k (VString l1) 1 (Some '':'')]) 0 (Some '':'')]
      = [ZWNode r (VArray [ZWNode k (VString (l1 @ CHR 0x0A # l2)) 1 (Some '':'')]) 0 (Some '':'')]"
    using processLine_continuation [OF assms(6,7,8)] .
  show ?thesis
    unfolding parseZW_def pz lines
    using zw_ne assms(1) step1 step2
    by (simp add: effectiveDelimiterOf_def Let_def del: append_assoc)
qed

subsection \<open>The serialized text of a string of two lines\<close>

lemma two_lines_not_ambiguous:
  "\<not> isPotentiallyAmbiguous fp (l1 @ CHR 0x0A # l2)"
proof -
  let ?v = "l1 @ CHR 0x0A # l2"
  have low: "lowerChar (CHR 0x0A) = CHR 0x0A" by (simp add: lowerChar_def)
  then have "CHR 0x0A \<in> set (toLowerCase ?v)"
    by (simp add: toLowerCase_def)
  then have a: "toLowerCase ?v \<noteq> ''true''" "toLowerCase ?v \<noteq> ''false''" "toLowerCase ?v \<noteq> ''null''"
    by auto
  have "\<not> isNumeralChar (CHR 0x0A)"
    by (simp add: isNumeralChar_def isAsciiDigit_def)
  then have n: "\<not> list_all isNumeralChar ?v" by simp
  have inf: "CHR 0x0A \<notin> set ''Infinity''" "CHR 0x0A \<notin> set ''-Infinity''" by simp_all
  have "CHR 0x0A \<in> set ?v" by simp
  with inf have "?v \<noteq> ''Infinity''" "?v \<noteq> ''-Infinity''" by metis+
  with n have "\<not> numberRoundTrips fp ?v"
    by (simp add: numberRoundTrips_def Let_def del: list_all_append)
  with a show ?thesis
    by (simp add: isPotentiallyAmbiguous_def Let_def)
qed

lemma convertValueToZw_two_lines:
  assumes "CHR 0x0A \<notin> set l1" and "CHR 0x0A \<notin> set l2"
  shows "convertValueToZw fp (JString (l1 @ CHR 0x0A # l2)) level
           = l1 @ CHR 0x0A # indentOf level @ l2"
proof -
  have "splitLines (l1 @ CHR 0x0A # l2) = [l1, l2]"
    using splitLines_append_line_feed [OF assms(1), of l2] splitLines_no_line_feed [OF assms(2)]
    by simp
  then show ?thesis
    using two_lines_not_ambiguous [of fp l1 l2]
    by (simp add: indentContinuation_def)
qed

lemma convertObjectToZwItems_two_lines:
  assumes "CHR 0x0A \<notin> set l1" and "CHR 0x0A \<notin> set l2"
  shows "convertObjectToZwItems fp [(k, JString (l1 @ CHR 0x0A # l2))] 1 False
           = replicate 2 (CHR '' '') @ k @ CHR '':'' # CHR '' '' # l1 @ CHR 0x0A # replicate 2 (CHR '' '') @ l2"
proof -
  have i: "indentOf (Suc 0) = replicate 2 (CHR '' '')"
    by (simp add: indentOf_def JSON_TO_ZW_INDENT_SPACES_def)
  show ?thesis
    using convertValueToZw_two_lines [OF assms, of fp 1]
    by (simp add: i del: convertValueToZw.simps)
qed

text \<open>
  Claim C6. A string of two lines, as \<^verbatim>\<open>line1\<close>, line feed, \<^verbatim>\<open>line2\<close>, is serialized
  across two physical lines, the first after the key and the second behind the indent of
  the current level, and \<^verbatim>\<open>parseZW\<close> of the output has a leaf whose value is the same
  string of two lines. It is proved for every key and every two lines that are non-empty
  words of letters, digits and underscores, in the two settings in which the output has a
  root line: as a property of an object under the root type \<^verbatim>\<open>ZW-TEST\<close>, and as the JSON
  root without root type (leaf \<^verbatim>\<open>ROOT_VALUE\<close>).
\<close>

theorem multi_line_scalar_round_trip:
  assumes "jsonParse objectText = Inr (JObject [(k, JString (l1 @ CHR 0x0A # l2))])"
    and "jsonParse stringText = Inr (JString (l1 @ CHR 0x0A # l2))"
    and "k \<noteq> []" and "list_all isKeyChar k"
    and "l1 \<noteq> []" and "list_all isKeyChar l1"
    and "l2 \<noteq> []" and "list_all isKeyChar l2"
  shows "convertJsonToZwString jsonParse fp objectText (Some ''ZW-TEST'')
           = ''ZW-TEST:'' @ [CHR 0x0A] @ ''  '' @ k @ '': '' @ l1 @ [CHR 0x0A] @ ''  '' @ l2 \<and>
         parseZW (convertJsonToZwString jsonParse fp objectText (Some ''ZW-TEST'')) None
           = Some (ZWNode ''ZW-TEST''
                     (VArray [ZWNode k (VString (l1 @ [CHR 0x0A] @ l2)) 1 (Some '':'')])
                     0 (Some '':'')) \<and>
         convertJsonToZwString jsonParse fp stringText None
           = ''JSON_PRIMITIVE_ROOT:'' @ [CHR 0x0A] @ ''ROOT_VALUE: '' @ l1 @ [CHR 0x0A] @ l2 \<and>
         parseZW (convertJsonToZwString jsonParse fp stringText None) None
           = Some (ZWNode ''JSON_PRIMITIVE_ROOT''
                     (VArray [ZWNode ''ROOT_VALUE'' (VString (l1 @ [CHR 0x0A] @ l2)) 1 (Some '':'')])
                     0 (Some '':''))"
proof -
  let ?v = "l1 @ CHR 0x0A # l2"
  have ka: "\<forall>c \<in> set k. isKeyChar c" and l1a: "\<forall>c \<in> set l1. isKeyChar c"
    and l2a: "\<forall>c \<in> set l2. isKeyChar c"
    using assms(4,6,8) by (simp_all add: list_all_iff)
  have nl1: "CHR 0x0A \<notin> set l1" and nl2: "CHR 0x0A \<notin> set l2"
    using l1a l2a keyChar_facts(3) by auto
  have l2_last: "\<not> isWhiteSpace (last l2)"
    using assms(7) l2a keyChar_facts(1) by (cases l2 rule: rev_cases) auto
  have root: "hasRootType (Some ''ZW-TEST'')" "rootTypeText (Some ''ZW-TEST'') = ''ZW-TEST''"
    by code_simp+
  let ?out1 = "(''ZW-TEST'' @ '':'') @ CHR 0x0A # (replicate 2 (CHR '' '') @ k @ CHR '':'' # CHR '' '' # l1)
                 @ CHR 0x0A # (replicate 2 (CHR '' '') @ l2)"
  have "last ?out1 = last l2" using assms(7) by simp
  then have "trim ?out1 = ?out1"
    using l2_last by (intro trim_id) (simp_all add: isWhiteSpace_def)
  then have t1: "trim ?out1 \<noteq> []" by simp
  have s1: "convertJsonToZwString jsonParse fp objectText (Some ''ZW-TEST'') = ?out1"
    using assms(1) root t1 convertObjectToZwItems_two_lines [OF nl1 nl2, of fp k]
    by (simp add: convertJsonToZwString_def del: convertObjectToZwItems.simps)
  have "rootLineMatch (''ZW-TEST'' @ '':'') = Some ''ZW-TEST''" by code_simp
  then have p1: "parseZW ?out1 None
      = Some (ZWNode ''ZW-TEST'' (VArray [ZWNode k (VString ?v) 1 (Some '':'')]) 0 (Some '':''))"
    using assms(3,5,7) ka l1a l2a
    by (intro parseZW_leaf_with_continuation) simp_all
  have noroot: "\<not> hasRootType None" "rootTypeMissing None" "indentOf 0 = []"
    by (simp_all add: hasRootType_def rootTypeMissing_def indentOf_def)
  let ?out2 = "(''JSON_PRIMITIVE_ROOT'' @ '':'') @ CHR 0x0A # (replicate 0 (CHR '' '') @ ''ROOT_VALUE'' @ CHR '':'' # CHR '' '' # l1)
                 @ CHR 0x0A # (replicate 0 (CHR '' '') @ l2)"
  have s2: "convertJsonToZwString jsonParse fp stringText None = ?out2"
    using assms(2) noroot convertValueToZw_two_lines [OF nl1 nl2, of fp 0]
    by (simp add: convertJsonToZwString_def del: convertValueToZw.simps)
  have "rootLineMatch (''JSON_PRIMITIVE_ROOT'' @ '':'') = Some ''JSON_PRIMITIVE_ROOT''" by code_simp
  moreover have "\<forall>c \<in> set ''ROOT_VALUE''. isKeyChar c" by code_simp
  ultimately have p2: "parseZW ?out2 None
      = Some (ZWNode ''JSON_PRIMITIVE_ROOT'' (VArray [ZWNode ''ROOT_VALUE'' (VString ?v) 1 (Some '':'')]) 0 (Some '':''))"
    using assms(5,7) l1a l2a
    by (intro parseZW_leaf_with_continuation) simp_all
  have e1: "?out1 = ''ZW-TEST:'' @ [CHR 0x0A] @ ''  '' @ k @ '': '' @ l1 @ [CHR 0x0A] @ ''  '' @ l2"
    by (simp add: numeral_2_eq_2)
  have e2: "?out2 = ''JSON_PRIMITIVE_ROOT:'' @ [CHR 0x0A] @ ''ROOT_VALUE: '' @ l1 @ [CHR 0x0A] @ l2"
    by simp
  from s1 e1 have "convertJsonToZwString jsonParse fp objectText (Some ''ZW-TEST'')
           = ''ZW-TEST:'' @ [CHR 0x0A] @ ''  '' @ k @ '': '' @ l1 @ [CHR 0x0A] @ ''  '' @ l2"
    by (rule trans)
  moreover from p1 s1 have "parseZW (convertJsonToZwString jsonParse fp objectText (Some ''ZW-TEST'')) None
           = Some (ZWNode ''ZW-TEST''
                     (VArray [ZWNode k (VString (l1 @ [CHR 0x0A] @ l2)) 1 (Some '':'')])
                     0 (Some '':''))"
    by simp
  moreover from s2 e2 have "convertJsonToZwString jsonParse fp stringText None
           = ''JSON_PRIMITIVE_ROOT:'' @ [CHR 0x0A] @ ''ROOT_VALUE: '' @ l1 @ [CHR 0x0A] @ l2"
    by (rule trans)
  moreover from p2 s2 have "parseZW (convertJsonToZwString jsonParse fp stringText None) None
           = Some (ZWNode ''JSON_PRIMITIVE_ROOT''
                     (VArray [ZWNode ''ROOT_VALUE'' (VString (l1 @ [CHR 0x0A] @ l2)) 1 (Some '':'')])
                     0 (Some '':''))"
    by simp
  ultimately show ?thesis by blast
qed

text \<open>
  The key \<^verbatim>\<open>k\<close> and the lines \<^verbatim>\<open>line1\<close> and \<^verbatim>\<open>line2\<close>, with a host that returns the
  object for a text that begins with a brace and the string otherwise, applied to the JSON
  texts of the two values.
\<close>

theorem multi_line_scalar_round_trip_witness:
  "(\<lambda>s. if take 1 s = ''{'' then Inr (JObject [(''k'', JString ''line1\<newline>line2'')])
         else Inr (JString ''line1\<newline>line2''))
     (''{'' @ [CHR 0x22] @ ''k'' @ [CHR 0x22] @ '':'' @ [CHR 0x22] @ ''line1'' @ [CHR 0x5C] @ ''nline2'' @ [CHR 0x22] @ ''}'')
     = Inr (JObject [(''k'', JString ''line1\<newline>line2'')]) \<and>
   (\<lambda>s. if take 1 s = ''{'' then Inr (JObject [(''k'', JString ''line1\<newline>line2'')])
         else Inr (JString ''line1\<newline>line2''))
     ([CHR 0x22] @ ''line1'' @ [CHR 0x5C] @ ''nline2'' @ [CHR 0x22])
     = Inr (JString ''line1\<newline>line2'') \<and>
   list_all isKeyChar ''k'' \<and> list_all isKeyChar ''line1'' \<and> list_all isKeyChar ''line2'' \<and>
   convertJsonToZwString
     (\<lambda>s. if take 1 s = ''{'' then Inr (JObject [(''k'', JString ''line1\<newline>line2'')])
           else Inr (JString ''line1\<newline>line2''))
     (\<lambda>s. False)
     (''{'' @ [CHR 0x22] @ ''k'' @ [CHR 0x22] @ '':'' @ [CHR 0x22] @ ''line1'' @ [CHR 0x5C] @ ''nline2'' @ [CHR 0x22] @ ''}'')
     (Some ''ZW-TEST'')
     = ''ZW-TEST:\<newline>  k: line1\<newline>  line2'' \<and>
   parseZW
     (convertJsonToZwString
        (\<lambda>s. if take 1 s = ''{'' then Inr (JObject [(''k'', JString ''line1\<newline>line2'')])
              else Inr (JString ''line1\<newline>line2''))
        (\<lambda>s. False)
        (''{'' @ [CHR 0x22] @ ''k'' @ [CHR 0x22] @ '':'' @ [CHR 0x22] @ ''line1'' @ [CHR 0x5C] @ ''nline2'' @ [CHR 0x22] @ ''}'')
        (Some ''ZW-TEST''))
     None
     = Some (ZWNode ''ZW-TEST''
               (VArray [ZWNode ''k'' (VString ''line1\<newline>line2'') 1 (Some '':'')])
               0 (Some '':''))"
proof -
  let ?host = "\<lambda>s. if take 1 s = ''{'' then Inr (JObject [(''k'', JString ''line1\<newline>line2'')])
         else Inr (JString ''line1\<newline>line2'')"
  let ?objectText = "''{'' @ [CHR 0x22] @ ''k'' @ [CHR 0x22] @ '':'' @ [CHR 0x22] @ ''line1'' @ [CHR 0x5C] @ ''nline2'' @ [CHR 0x22] @ ''}''"
  let ?stringText = "[CHR 0x22] @ ''line1'' @ [CHR 0x5C] @ ''nline2'' @ [CHR 0x22]"
  have a: "?host ?objectText = Inr (JObject [(''k'', JString (''line1'' @ CHR 0x0A # ''line2''))])"
    by simp
  have b: "?host ?stringText = Inr (JString (''line1'' @ CHR 0x0A # ''line2''))"
    by simp
  have a': "?host ?objectText = Inr (JObject [(''k'', JString ''line1\<newline>line2'')])"
    by simp
  have b': "?host ?stringText = Inr (JString ''line1\<newline>line2'')"
    by simp
  have lit1: "''ZW-TEST:'' @ [CHR 0x0A] @ ''  '' @ ''k'' @ '': '' @ ''line1'' @ [CHR 0x0A] @ ''  '' @ ''line2''
      = ''ZW-TEST:\<newline>  k: line1\<newline>  line2''"
    by simp
  have lit2: "''line1'' @ [CHR 0x0A] @ ''line2'' = ''line1\<newline>line2''"
    by simp
  have c: "''k'' \<noteq> []" "''line1'' \<noteq> []" "''line2'' \<noteq> []" by simp_all
  have d: "list_all isKeyChar ''k''" "list_all isKeyChar ''line1''" "list_all isKeyChar ''line2''"
    by code_simp+
  note t = multi_line_scalar_round_trip
             [of ?host ?objectText "''k''" "''line1''" "''line2''" ?stringText "\<lambda>s. False",
              OF a b c(1) d(1) c(2) d(2) c(3) d(3)]
  from t [THEN conjunct1] have e: "convertJsonToZwString ?host (\<lambda>s. False) ?objectText (Some ''ZW-TEST'')
     = ''ZW-TEST:\<newline>  k: line1\<newline>  line2''"
    by (simp only: lit1)
  from t [THEN conjunct2, THEN conjunct1]
  have f: "parseZW (convertJsonToZwString ?host (\<lambda>s. False) ?objectText (Some ''ZW-TEST'')) None
     = Some (ZWNode ''ZW-TEST''
               (VArray [ZWNode ''k'' (VString ''line1\<newline>line2'') 1 (Some '':'')])
               0 (Some '':''))"
    by (simp only: lit2)
  from a' b' d e f show ?thesis by blast
qed

end
